theory Spec2Isabelle
  imports Complex_Main "HOL-Library.Char_ord"
begin

section \<open>Values, errors and raw queries\<close>

text \<open>
  The query parser of \<^verbatim>\<open>src/lib/query/mongo.query.ts\<close> turns the decoded query string of a
  request into a descriptor for a document database. A string of the program is a list of
  characters here, each character standing for one code unit below 256 (ASCII and Latin-1
  text). A number inside a filter is its exact value, a rational; the numbers of the
  pagination, \<open>limit\<close> and \<open>skip\<close>, are the doubles of the engine, rounded as the engine rounds
  them. An object is the list of its properties in the order in which the engine enumerates
  them.
\<close>

datatype jsval =
    JNull
  | JBool bool
  | JNum rat
  | JStr string
  | JArr "jsval list"
  | JObj "(string \<times> jsval) list"

type_synonym QueryObjectModel = "(string \<times> jsval) list"

datatype error = TypeError | RangeError | SyntaxError

text \<open>The value of a key of the decoded query string: one string, or the strings of a
  repeated key.\<close>

datatype raw = RStr string | RArr "string list"

type_synonym RawQuery = "(string \<times> raw) list"

section \<open>Strings of the host language\<close>

primrec startsWith :: "string \<Rightarrow> string \<Rightarrow> bool" where
  "startsWith s [] = True"
| "startsWith s (p # ps) = (case s of [] \<Rightarrow> False | c # cs \<Rightarrow> c = p \<and> startsWith cs ps)"

definition endsWith :: "string \<Rightarrow> string \<Rightarrow> bool" where
  "endsWith s p = startsWith (rev s) (rev p)"

text \<open>\<^verbatim>\<open>s.indexOf(c)\<close> for a single character: the first position, or -1.\<close>

fun indexOf :: "string \<Rightarrow> char \<Rightarrow> int" where
  "indexOf [] c = -1"
| "indexOf (x # xs) c = (if x = c then 0 else (let i = indexOf xs c in if i < 0 then -1 else i + 1))"

text \<open>\<^verbatim>\<open>s.substring(a, b)\<close> clamps both positions to the string and swaps them when they
  are out of order; \<^verbatim>\<open>s.substring(a)\<close> runs to the end.\<close>

definition clampIndex :: "string \<Rightarrow> int \<Rightarrow> nat" where
  "clampIndex s i = (if i < 0 then 0 else min (nat i) (length s))"

definition substring2 :: "string \<Rightarrow> int \<Rightarrow> int \<Rightarrow> string" where
  "substring2 s a b =
     (let x = clampIndex s a; y = clampIndex s b
      in take (max x y - min x y) (drop (min x y) s))"

definition substring1 :: "string \<Rightarrow> int \<Rightarrow> string" where
  "substring1 s a = drop (clampIndex s a) s"

text \<open>\<^verbatim>\<open>s.split(c)\<close> for a separator of one character.\<close>

fun splitChar :: "char \<Rightarrow> string \<Rightarrow> string list" where
  "splitChar c [] = [[]]"
| "splitChar c (x # xs) =
     (if x = c then [] # splitChar c xs
      else (case splitChar c xs of [] \<Rightarrow> [[x]] | p # ps \<Rightarrow> (x # p) # ps))"

text \<open>\<^verbatim>\<open>s.split(sep)\<close> for a separator of one character or more: \<open>k\<close> counts the
  characters of a separator just found that are still to be skipped, \<open>cur\<close> is the piece
  being read.\<close>

fun splitAcc :: "string \<Rightarrow> nat \<Rightarrow> string \<Rightarrow> string \<Rightarrow> string list" where
  "splitAcc sep k cur [] = [cur]"
| "splitAcc sep (Suc k) cur (x # xs) = splitAcc sep k cur xs"
| "splitAcc sep 0 cur (x # xs) =
     (if startsWith (x # xs) sep then cur # splitAcc sep (length sep - 1) [] xs
      else splitAcc sep 0 (cur @ [x]) xs)"

definition splitStr :: "string \<Rightarrow> string \<Rightarrow> string list" where
  "splitStr sep s = splitAcc sep 0 [] s"

text \<open>\<^verbatim>\<open>s.replace(/c/g, r)\<close> for a single character.\<close>

definition replaceChar :: "char \<Rightarrow> string \<Rightarrow> string \<Rightarrow> string" where
  "replaceChar c r s = concat (map (\<lambda>x. if x = c then r else [x]) s)"

subsection \<open>Character classes of the regular expressions\<close>

definition isDigit :: "char \<Rightarrow> bool" where
  "isDigit c \<longleftrightarrow> CHR ''0'' \<le> c \<and> c \<le> CHR ''9''"

definition isUpper :: "char \<Rightarrow> bool" where
  "isUpper c \<longleftrightarrow> CHR ''A'' \<le> c \<and> c \<le> CHR ''Z''"

definition isLower :: "char \<Rightarrow> bool" where
  "isLower c \<longleftrightarrow> CHR ''a'' \<le> c \<and> c \<le> CHR ''z''"

text \<open>\<^verbatim>\<open>\w\<close> and \<^verbatim>\<open>\s\<close>.\<close>

definition isWord :: "char \<Rightarrow> bool" where
  "isWord c \<longleftrightarrow> isUpper c \<or> isLower c \<or> isDigit c \<or> c = CHR ''_''"

definition isSpace :: "char \<Rightarrow> bool" where
  "isSpace c \<longleftrightarrow> c = CHR '' '' \<or> c = CHR 0x09 \<or> c = CHR 0x0A \<or> c = CHR 0x0B
     \<or> c = CHR 0x0C \<or> c = CHR 0x0D \<or> c = CHR 0xA0"

subsection \<open>Decimal numerals\<close>

definition digitVal :: "char \<Rightarrow> nat" where
  "digitVal c = of_char c - 48"

definition natOfDigits :: "string \<Rightarrow> nat" where
  "natOfDigits s = foldl (\<lambda>n c. 10 * n + digitVal c) 0 s"

definition digitChar :: "nat \<Rightarrow> char" where
  "digitChar d = ''0123456789'' ! d"

function decimal :: "nat \<Rightarrow> string" where
  "decimal n = (if n < 10 then [digitChar n] else decimal (n div 10) @ [digitChar (n mod 10)])"
  by pat_completeness auto
termination
  by (relation "measure id") auto

declare decimal.simps [simp del]

section \<open>Objects\<close>

text \<open>
  The engine enumerates the properties of an object with the array indices first, in
  ascending order, then the other keys in the order of their creation. An array index is
  the canonical decimal numeral of a number below \<open>2^32 - 1\<close>.
\<close>

definition isArrayIndex :: "string \<Rightarrow> bool" where
  "isArrayIndex k \<longleftrightarrow> k \<noteq> [] \<and> list_all isDigit k \<and> (k = ''0'' \<or> hd k \<noteq> CHR ''0'')
     \<and> natOfDigits k < 2 ^ 32 - 1"

fun insertIndex :: "string \<Rightarrow> 'v \<Rightarrow> (string \<times> 'v) list \<Rightarrow> (string \<times> 'v) list" where
  "insertIndex k v [] = [(k, v)]"
| "insertIndex k v ((k', v') # kvs) =
     (if isArrayIndex k' \<and> natOfDigits k' < natOfDigits k then (k', v') # insertIndex k v kvs
      else (k, v) # (k', v') # kvs)"

text \<open>A property is defined, as by \<^verbatim>\<open>JSON.parse\<close>: an existing property keeps its place.\<close>

definition obj_define :: "(string \<times> 'v) list \<Rightarrow> string \<Rightarrow> 'v \<Rightarrow> (string \<times> 'v) list" where
  "obj_define obj k v =
     (if map_of obj k \<noteq> None then map (\<lambda>(k', v'). if k' = k then (k', v) else (k', v')) obj
      else if isArrayIndex k then insertIndex k v obj
      else obj @ [(k, v)])"

text \<open>\<^verbatim>\<open>obj[k] = v\<close> on an ordinary object. The key \<^verbatim>\<open>__proto__\<close> is the accessor of the
  prototype there: an assignment to it makes no property of the object.\<close>

definition obj_set :: "(string \<times> 'v) list \<Rightarrow> string \<Rightarrow> 'v \<Rightarrow> (string \<times> 'v) list" where
  "obj_set obj k v = (if k = ''__proto__'' then obj else obj_define obj k v)"

text \<open>\<^verbatim>\<open>delete obj[k]\<close>.\<close>

definition obj_delete :: "string \<Rightarrow> (string \<times> 'v) list \<Rightarrow> (string \<times> 'v) list" where
  "obj_delete k obj = filter (\<lambda>(k', v'). k' \<noteq> k) obj"

section \<open>Built-in functions of the host\<close>

subsection \<open>\<^verbatim>\<open>JSON.parse\<close>\<close>

text \<open>
  The text is cut into tokens, then read by a machine with a stack of the arrays and objects
  still open. \<open>None\<close> is the \<^verbatim>\<open>SyntaxError\<close> of the host. An escape \<^verbatim>\<open>\uXXXX\<close> of a code
  unit above 255 has no character in this model and fails as well.
\<close>

datatype jtoken =
  TLBrace | TRBrace | TLBrack | TRBrack | TComma | TColon | TStr string | TLit jsval

definition isJsonWs :: "char \<Rightarrow> bool" where
  "isJsonWs c \<longleftrightarrow> c = CHR '' '' \<or> c = CHR 0x09 \<or> c = CHR 0x0A \<or> c = CHR 0x0D"

definition isHex :: "char \<Rightarrow> bool" where
  "isHex c \<longleftrightarrow> isDigit c \<or> (CHR ''a'' \<le> c \<and> c \<le> CHR ''f'') \<or> (CHR ''A'' \<le> c \<and> c \<le> CHR ''F'')"

definition hexVal :: "char \<Rightarrow> nat" where
  "hexVal c = (if isDigit c then of_char c - 48
               else if CHR ''a'' \<le> c then of_char c - 87 else of_char c - 55)"

definition hexNum :: "string \<Rightarrow> nat" where
  "hexNum s = foldl (\<lambda>n c. 16 * n + hexVal c) 0 s"

definition escapeChar :: "char \<Rightarrow> char option" where
  "escapeChar e =
     (if e = CHR 0x22 \<or> e = CHR 0x5C \<or> e = CHR ''/'' then Some e
      else if e = CHR ''b'' then Some (CHR 0x08)
      else if e = CHR ''f'' then Some (CHR 0x0C)
      else if e = CHR ''n'' then Some (CHR 0x0A)
      else if e = CHR ''r'' then Some (CHR 0x0D)
      else if e = CHR ''t'' then Some (CHR 0x09)
      else None)"

text \<open>A string literal, read from behind its opening quote: its characters and the text
  behind its closing quote.\<close>

fun lexString :: "string \<Rightarrow> (string \<times> string) option" where
  "lexString [] = None"
| "lexString (c # cs) =
     (if c = CHR 0x22 then Some ([], cs)
      else if c = CHR 0x5C then
        (case cs of
           [] \<Rightarrow> None
         | e # es \<Rightarrow>
             if e = CHR ''u'' then
               (if 4 \<le> length es \<and> list_all isHex (take 4 es) \<and> hexNum (take 4 es) < 256
                then map_option (\<lambda>(s, r). (char_of (hexNum (take 4 es)) # s, r)) (lexString (drop 4 es))
                else None)
             else (case escapeChar e of
                     None \<Rightarrow> None
                   | Some x \<Rightarrow> map_option (\<lambda>(s, r). (x # s, r)) (lexString es)))
      else if of_char c < (32 :: nat) then None
      else map_option (\<lambda>(s, r). (c # s, r)) (lexString cs))"

text \<open>A number \<^verbatim>\<open>-?(0|[1-9][0-9]*)(\.[0-9]+)?([eE][+-]?[0-9]+)?\<close> at the head of the text: its
  value and the text behind it.\<close>

definition lexInt :: "string \<Rightarrow> (string \<times> string) option" where
  "lexInt s =
     (let ip = takeWhile isDigit s
      in if ip = [] \<or> (1 < length ip \<and> hd ip = CHR ''0'') then None
         else Some (ip, dropWhile isDigit s))"

definition lexFrac :: "string \<Rightarrow> (string \<times> string) option" where
  "lexFrac s =
     (if startsWith s ''.''
      then (if takeWhile isDigit (tl s) = [] then None
            else Some (takeWhile isDigit (tl s), dropWhile isDigit (tl s)))
      else Some ([], s))"

definition lexExp :: "string \<Rightarrow> (int \<times> string) option" where
  "lexExp s =
     (if startsWith s ''e'' \<or> startsWith s ''E''
      then (let neg = startsWith (tl s) ''-'';
                t = (if neg \<or> startsWith (tl s) ''+'' then tl (tl s) else tl s);
                ep = takeWhile isDigit t
            in if ep = [] then None
               else Some (if neg then - int (natOfDigits ep) else int (natOfDigits ep),
                          dropWhile isDigit t))
      else Some (0, s))"

definition lexNumber :: "string \<Rightarrow> (rat \<times> string) option" where
  "lexNumber s =
     (let neg = startsWith s ''-''
      in case lexInt (if neg then tl s else s) of
           None \<Rightarrow> None
         | Some (ip, s2) \<Rightarrow>
             (case lexFrac s2 of
                None \<Rightarrow> None
              | Some (fp, s3) \<Rightarrow>
                  (case lexExp s3 of
                     None \<Rightarrow> None
                   | Some (e, s4) \<Rightarrow>
                       (let m = of_nat (natOfDigits (ip @ fp)) / 10 ^ length fp;
                            v = (if e < 0 then m / 10 ^ nat (- e) else m * 10 ^ nat e)
                        in Some (if neg then - v else v, s4)))))"

lemma lexString_shorter: "lexString cs = Some (s, r) \<Longrightarrow> length r \<le> length cs"
proof (induction cs arbitrary: s r rule: lexString.induct)
  case 1
  then show ?case by simp
next
  case (2 c cs)
  show ?case
  proof (cases "c = CHR 0x22")
    case True
    with "2.prems" show ?thesis by simp
  next
    case quote: False
    show ?thesis
    proof (cases "c = CHR 0x5C")
      case True
      with quote "2.prems" obtain e es where cs: "cs = e # es"
        by (cases cs) auto
      show ?thesis
      proof (cases "e = CHR ''u''")
        case u: True
        from "2.prems" quote True cs u
        have ok: "4 \<le> length es \<and> list_all isHex (take 4 es) \<and> hexNum (take 4 es) < 256"
          by (simp split: if_splits)
        with "2.prems" quote True cs u obtain s' where "lexString (drop 4 es) = Some (s', r)"
          by (auto split: if_splits)
        from "2.IH"(1) [OF quote True cs u ok this] show ?thesis
          by (simp add: cs)
      next
        case nu: False
        from "2.prems" quote True cs nu obtain x where x: "escapeChar e = Some x"
          by (auto split: option.splits)
        with "2.prems" quote True cs nu obtain s' where "lexString es = Some (s', r)"
          by auto
        from "2.IH"(2) [OF quote True cs nu x this] show ?thesis
          by (simp add: cs)
      qed
    next
      case False
      with quote "2.prems" have c: "\<not> of_char c < (32 :: nat)"
        by (simp split: if_splits)
      with "2.prems" quote False obtain s' where "lexString cs = Some (s', r)"
        by auto
      from "2.IH"(3) [OF quote False c this] show ?thesis by simp
    qed
  qed
qed

lemma dropWhile_shorter:
  assumes "takeWhile P xs \<noteq> []"
  shows "length (dropWhile P xs) < length xs"
proof (cases xs)
  case Nil
  with assms show ?thesis by simp
next
  case (Cons x ys)
  with assms have "P x" by (simp split: if_splits)
  with Cons show ?thesis by (simp add: length_dropWhile_le less_Suc_eq_le)
qed

lemma lexInt_shorter: "lexInt s = Some (ip, r) \<Longrightarrow> length r < length s"
proof -
  assume "lexInt s = Some (ip, r)"
  then have "takeWhile isDigit s \<noteq> []" and "r = dropWhile isDigit s"
    unfolding lexInt_def Let_def by (auto split: if_splits)
  then show ?thesis by (simp add: dropWhile_shorter)
qed

lemma lexFrac_shorter: "lexFrac s = Some (fp, r) \<Longrightarrow> length r \<le> length s"
proof -
  have "length (dropWhile isDigit (tl s)) \<le> length s"
    using length_dropWhile_le [of isDigit "tl s"] by simp
  moreover assume "lexFrac s = Some (fp, r)"
  ultimately show ?thesis
    unfolding lexFrac_def by (simp split: if_splits)
qed

lemma lexExp_shorter: "lexExp s = Some (e, r) \<Longrightarrow> length r \<le> length s"
proof -
  have "length (dropWhile isDigit (tl s)) \<le> length s"
    using length_dropWhile_le [of isDigit "tl s"] by simp
  moreover have "length (dropWhile isDigit (tl (tl s))) \<le> length s"
    using length_dropWhile_le [of isDigit "tl (tl s)"] by simp
  moreover assume "lexExp s = Some (e, r)"
  ultimately show ?thesis
    unfolding lexExp_def Let_def by (simp split: if_splits)
qed

lemma lexNumber_shorter: "lexNumber s = Some (v, r) \<Longrightarrow> length r < length s"
proof -
  assume h: "lexNumber s = Some (v, r)"
  let ?s1 = "if startsWith s ''-'' then tl s else s"
  from h obtain ip s2 where 1: "lexInt ?s1 = Some (ip, s2)"
    unfolding lexNumber_def Let_def by (simp split: option.splits prod.splits)
  with h obtain fp s3 where 2: "lexFrac s2 = Some (fp, s3)"
    unfolding lexNumber_def Let_def by (simp split: option.splits prod.splits)
  with h 1 obtain e where 3: "lexExp s3 = Some (e, r)"
    unfolding lexNumber_def Let_def by (simp split: option.splits prod.splits)
  have "length ?s1 \<le> length s" by simp
  with lexInt_shorter [OF 1] lexFrac_shorter [OF 2] lexExp_shorter [OF 3]
  show ?thesis by linarith
qed

function lex :: "string \<Rightarrow> jtoken list option" where
  "lex [] = Some []"
| "lex (c # cs) =
     (if isJsonWs c then lex cs
      else if c = CHR ''{'' then map_option ((#) TLBrace) (lex cs)
      else if c = CHR ''}'' then map_option ((#) TRBrace) (lex cs)
      else if c = CHR ''['' then map_option ((#) TLBrack) (lex cs)
      else if c = CHR '']'' then map_option ((#) TRBrack) (lex cs)
      else if c = CHR '','' then map_option ((#) TComma) (lex cs)
      else if c = CHR '':'' then map_option ((#) TColon) (lex cs)
      else if c = CHR 0x22 then
        (case lexString cs of
           None \<Rightarrow> None
         | Some (s, r) \<Rightarrow> map_option ((#) (TStr s)) (lex r))
      else if startsWith (c # cs) ''true'' then map_option ((#) (TLit (JBool True))) (lex (drop 3 cs))
      else if startsWith (c # cs) ''false'' then map_option ((#) (TLit (JBool False))) (lex (drop 4 cs))
      else if startsWith (c # cs) ''null'' then map_option ((#) (TLit JNull)) (lex (drop 3 cs))
      else if c = CHR ''-'' \<or> isDigit c then
        (case lexNumber (c # cs) of
           None \<Rightarrow> None
         | Some (n, r) \<Rightarrow> map_option ((#) (TLit (JNum n))) (lex r))
      else None)"
  by pat_completeness auto
termination
proof (relation "measure length", goal_cases)
  case (9 c cs x2 x y)
  then show ?case using lexString_shorter [of cs x y] by simp
next
  case (13 c cs x2 x y)
  then show ?case using lexNumber_shorter [of "c # cs" x y] by simp
qed simp_all

datatype jframe = FArr "jsval list" | FObj "(string \<times> jsval) list" | FKey string

datatype jphase = PValue | PFirstElem | PFirstKey | PKey | PColon | PNext | PDone jsval

text \<open>A value is complete: it ends the text, or joins the array or the object around it.\<close>

fun reduce :: "jsval \<Rightarrow> jframe list \<Rightarrow> (jframe list \<times> jphase) option" where
  "reduce v [] = Some ([], PDone v)"
| "reduce v (FArr es # st) = Some (FArr (es @ [v]) # st, PNext)"
| "reduce v (FKey k # FObj ms # st) = Some (FObj (obj_define ms k v) # st, PNext)"
| "reduce v st = None"

fun closeArr :: "jframe list \<Rightarrow> (jframe list \<times> jphase) option" where
  "closeArr (FArr es # st) = reduce (JArr es) st"
| "closeArr st = None"

fun closeObj :: "jframe list \<Rightarrow> (jframe list \<times> jphase) option" where
  "closeObj (FObj ms # st) = reduce (JObj ms) st"
| "closeObj st = None"

fun startValue :: "jframe list \<Rightarrow> jtoken \<Rightarrow> (jframe list \<times> jphase) option" where
  "startValue st (TLit v) = reduce v st"
| "startValue st (TStr s) = reduce (JStr s) st"
| "startValue st TLBrack = Some (FArr [] # st, PFirstElem)"
| "startValue st TLBrace = Some (FObj [] # st, PFirstKey)"
| "startValue st tok = None"

fun jstep :: "jframe list \<Rightarrow> jphase \<Rightarrow> jtoken \<Rightarrow> (jframe list \<times> jphase) option" where
  "jstep st PValue tok = startValue st tok"
| "jstep st PFirstElem tok = (if tok = TRBrack then closeArr st else startValue st tok)"
| "jstep st PFirstKey tok =
     (case tok of TStr k \<Rightarrow> Some (FKey k # st, PColon) | TRBrace \<Rightarrow> closeObj st | _ \<Rightarrow> None)"
| "jstep st PKey tok = (case tok of TStr k \<Rightarrow> Some (FKey k # st, PColon) | _ \<Rightarrow> None)"
| "jstep st PColon tok = (if tok = TColon then Some (st, PValue) else None)"
| "jstep st PNext tok =
     (case st of
        FArr es # st' \<Rightarrow>
          (if tok = TComma then Some (st, PValue) else if tok = TRBrack then closeArr st else None)
      | FObj ms # st' \<Rightarrow>
          (if tok = TComma then Some (st, PKey) else if tok = TRBrace then closeObj st else None)
      | _ \<Rightarrow> None)"
| "jstep st (PDone v) tok = None"

fun jrun :: "jframe list \<Rightarrow> jphase \<Rightarrow> jtoken list \<Rightarrow> jsval option" where
  "jrun st ph [] = (case ph of PDone v \<Rightarrow> Some v | _ \<Rightarrow> None)"
| "jrun st ph (tok # toks) =
     (case jstep st ph tok of None \<Rightarrow> None | Some (st', ph') \<Rightarrow> jrun st' ph' toks)"

definition JSON_parse :: "string \<Rightarrow> jsval option" where
  "JSON_parse text = (case lex text of None \<Rightarrow> None | Some toks \<Rightarrow> jrun [] PValue toks)"

subsection \<open>\<^verbatim>\<open>URLSearchParams\<close>\<close>

text \<open>
  The text is cut at every \<^verbatim>\<open>&\<close>, each piece at its first \<^verbatim>\<open>=\<close>; in names and values a
  \<^verbatim>\<open>+\<close> is a space and \<^verbatim>\<open>%XX\<close> the character of that number. The host then decodes UTF-8,
  which changes nothing in ASCII text and is not modelled.
\<close>

fun percentDecode :: "string \<Rightarrow> string" where
  "percentDecode (c # h1 # h2 # cs) =
     (if c = CHR ''%'' \<and> isHex h1 \<and> isHex h2
      then char_of (16 * hexVal h1 + hexVal h2) # percentDecode cs
      else c # percentDecode (h1 # h2 # cs))"
| "percentDecode cs = cs"

definition formDecode :: "string \<Rightarrow> string" where
  "formDecode s = percentDecode (map (\<lambda>c. if c = CHR ''+'' then CHR '' '' else c) s)"

definition URLSearchParams :: "string \<Rightarrow> (string \<times> string) list" where
  "URLSearchParams init =
     map (\<lambda>p. let i = indexOf p CHR ''=''
              in if i < 0 then (formDecode p, [])
                 else (formDecode (take (nat i) p), formDecode (drop (nat i + 1) p)))
       (filter (\<lambda>p. p \<noteq> [])
          (splitChar CHR ''&'' (if startsWith init ''?'' then tl init else init)))"

subsection \<open>\<^verbatim>\<open>Object.keys\<close>\<close>

text \<open>
  The own enumerable properties of a value, each with the value read through its key:
  none for a number or a boolean, the positions and characters of a string, the positions
  and elements of an array. For \<^verbatim>\<open>null\<close> the host throws a \<^verbatim>\<open>TypeError\<close>.
\<close>

fun ownEntries :: "jsval \<Rightarrow> error + (string \<times> jsval) list" where
  "ownEntries JNull = Inl TypeError"
| "ownEntries (JBool b) = Inr []"
| "ownEntries (JNum n) = Inr []"
| "ownEntries (JStr s) = Inr (map (\<lambda>i. (decimal i, JStr [s ! i])) [0..<length s])"
| "ownEntries (JArr xs) = Inr (map (\<lambda>i. (decimal i, xs ! i)) [0..<length xs])"
| "ownEntries (JObj kvs) = Inr kvs"

subsection \<open>\<^verbatim>\<open>Date\<close>\<close>

text \<open>
  \<^verbatim>\<open>new Date(s).toISOString()\<close> depends on the time zone of the host for a date-time
  without an offset, so the conversion is a parameter of the model: the ISO string, or
  \<open>None\<close> where the date is invalid and \<^verbatim>\<open>toISOString\<close> throws a \<^verbatim>\<open>RangeError\<close>.
\<close>

type_synonym dateHost = "string \<Rightarrow> string option"

section \<open>The utilities behind the parser\<close>

text \<open>
  Modelled from the spec: \<^verbatim>\<open>StringUtils\<close> (\<^verbatim>\<open>utils/string.util\<close>) is not among the sources.
  \<open>cleanString\<close> removes every match of a one-character regular expression, given here
  as the predicate of the characters it matches; \<open>splitString\<close> cuts at a separator;
  \<open>testString\<close> tests a regular expression, given as its matcher.
\<close>

definition cleanString :: "string \<Rightarrow> (char \<Rightarrow> bool) \<Rightarrow> string" where
  "cleanString str regex = filter (\<lambda>c. \<not> regex c) str"

definition splitString :: "string \<Rightarrow> char \<Rightarrow> string list" where
  "splitString str separator = splitChar separator str"

definition testString :: "string \<Rightarrow> (string \<Rightarrow> bool) \<Rightarrow> bool" where
  "testString str regex = regex str"

text \<open>
  Modelled from the spec: \<^verbatim>\<open>StringValidator\<close> (\<^verbatim>\<open>utils/string.validator\<close>) is not among the
  sources. An integer is a run of digits; a numeric string is a run of digits with an
  optional fraction; an ISO date is \<^verbatim>\<open>dddd-dd-dd\<close>, an ISO date-time adds \<^verbatim>\<open>Tdd:dd:dd\<close>, an
  optional fraction of a second and an optional \<^verbatim>\<open>Z\<close> or offset \<^verbatim>\<open>+dd:dd\<close>.
\<close>

definition isInt :: "string \<Rightarrow> bool" where
  "isInt str \<longleftrightarrow> str \<noteq> [] \<and> list_all isDigit str"

definition isNumberString :: "string \<Rightarrow> bool" where
  "isNumberString str \<longleftrightarrow>
     (let ip = takeWhile isDigit str; r = dropWhile isDigit str
      in ip \<noteq> [] \<and> (r = [] \<or> (hd r = CHR ''.'' \<and> tl r \<noteq> [] \<and> list_all isDigit (tl r))))"

text \<open>A pattern in which \<^verbatim>\<open>d\<close> stands for a digit and every other character for itself.\<close>

fun matchDigits :: "string \<Rightarrow> string \<Rightarrow> bool" where
  "matchDigits [] s = (s = [])"
| "matchDigits (p # ps) [] = False"
| "matchDigits (p # ps) (c # cs) =
     ((if p = CHR ''d'' then isDigit c else c = p) \<and> matchDigits ps cs)"

definition isISODate :: "string \<Rightarrow> bool" where
  "isISODate str = matchDigits ''dddd-dd-dd'' str"

definition isISODateTime :: "string \<Rightarrow> bool" where
  "isISODateTime str \<longleftrightarrow>
     matchDigits ''dddd-dd-ddTdd:dd:dd'' (take 19 str) \<and>
     (let r = drop 19 str;
          z = (if startsWith r ''.'' then dropWhile isDigit (tl r) else r)
      in (if startsWith r ''.'' then takeWhile isDigit (tl r) \<noteq> [] else True) \<and>
         (z = [] \<or> z = ''Z'' \<or> matchDigits ''+dd:dd'' z \<or> matchDigits ''-dd:dd'' z))"

text \<open>The unary plus on a string that \<open>isNumberString\<close> accepts, as the exact value that
  its digits write.\<close>

definition toNumber :: "string \<Rightarrow> rat" where
  "toNumber str =
     (let ip = takeWhile isDigit str; fp = takeWhile isDigit (tl (dropWhile isDigit str))
      in of_nat (natOfDigits (ip @ fp)) / 10 ^ length fp)"

section \<open>The query parser\<close>

subsection \<open>The shapes of a filter token\<close>

text \<open>\<^verbatim>\<open>VALID_OPERATORS.queryOperators.logical\<close>, the only list of the table that the parser
  reads.\<close>

definition logical :: "string list" where
  "logical = [''$and'', ''$not'', ''$nor'', ''$or'']"

definition isComparisonFilter :: "string \<Rightarrow> bool" where
  "isComparisonFilter filter' \<longleftrightarrow>
     startsWith filter' ''{eq}'' \<or> startsWith filter' ''{gt}'' \<or> startsWith filter' ''{gte}'' \<or>
     startsWith filter' ''{in}'' \<or> startsWith filter' ''{lt}'' \<or> startsWith filter' ''{lte}'' \<or>
     startsWith filter' ''{ne}'' \<or> startsWith filter' ''{nin}''"

definition isElementFilter :: "string \<Rightarrow> bool" where
  "isElementFilter filter' \<longleftrightarrow> startsWith filter' ''{exists}'' \<or> startsWith filter' ''{type}''"

definition isElementMatchFilter :: "string \<Rightarrow> bool" where
  "isElementMatchFilter filter' \<longleftrightarrow> startsWith filter' ''{elemMatch}''"

definition isANDFilter :: "string \<Rightarrow> bool" where
  "isANDFilter filter' =
     (if indexOf filter' CHR ''{'' = -1 then False
      else 1 < length (List.filter (\<lambda>val. val \<noteq> []) (splitChar CHR ''{'' filter')))"

text \<open>The regular expression \<^verbatim>\<open>/^(([{\w\s@.-}]\|?){1,}[{\w@.-}])$/\<close> of \<open>isORFilter\<close>. In both
  classes \<^verbatim>\<open>.-}\<close> is the range from the dot to the closing brace.\<close>

definition orClass :: "char \<Rightarrow> bool" where
  "orClass c \<longleftrightarrow> c = CHR ''{'' \<or> isWord c \<or> isSpace c \<or> c = CHR ''@'' \<or> (CHR ''.'' \<le> c \<and> c \<le> CHR ''}'')"

definition orLast :: "string \<Rightarrow> bool" where
  "orLast s = (case s of [c] \<Rightarrow> c = CHR ''{'' \<or> isWord c \<or> c = CHR ''@'' \<or> (CHR ''.'' \<le> c \<and> c \<le> CHR ''}'')
               | _ \<Rightarrow> False)"

text \<open>One group, a character of the class and an optional bar, then another group or the
  last character.\<close>

fun orRegex :: "string \<Rightarrow> bool" where
  "orRegex [] = False"
| "orRegex (c # cs) =
     (orClass c \<and>
        (orRegex cs \<or> orLast cs \<or>
         (case cs of [] \<Rightarrow> False | d # ds \<Rightarrow> d = CHR ''|'' \<and> (orRegex ds \<or> orLast ds))))"

definition isORFilter :: "string \<Rightarrow> bool" where
  "isORFilter filter' =
     (if indexOf filter' CHR ''|'' = -1 then False else testString filter' orRegex)"

definition isLogicalOperator :: "string \<Rightarrow> bool" where
  "isLogicalOperator filter' =
     list_ex (\<lambda>operator. startsWith filter' (''{'' @ remove1 CHR ''$'' operator @ ''}'')) logical"

definition getElementExists :: "string \<Rightarrow> jsval" where
  "getElementExists value =
     (if value \<notin> set [''true'', ''false''] then JNull
      else JObj [(''$exists'', JBool (value = ''true''))])"

definition validTypes :: "string list" where
  "validTypes = [''double'', ''string'', ''object'', ''array'', ''binData'', ''objectId'', ''bool'',
     ''date'', ''null'', ''regex'', ''javascript'', ''int'', ''timestamp'', ''long'', ''decimal'',
     ''minKey'', ''maxKey'']"

definition getElementType :: "string \<Rightarrow> jsval" where
  "getElementType value =
     (if value \<notin> set validTypes then JNull else JObj [(''$type'', JStr value)])"

text \<open>\<open>isJson\<close>: the text parses, and to an object or an array.\<close>

definition isJson :: "string \<Rightarrow> bool" where
  "isJson item =
     (case JSON_parse item of
        None \<Rightarrow> False
      | Some v \<Rightarrow> (case v of JObj kvs \<Rightarrow> True | JArr xs \<Rightarrow> True | _ \<Rightarrow> False))"

text \<open>The two one-character regular expressions handed to \<open>cleanString\<close>:
  \<^verbatim>\<open>/[^A-z0-9_.]/g\<close> for keys, with the range from \<^verbatim>\<open>A\<close> to \<^verbatim>\<open>z\<close> as the source writes it, and
  \<^verbatim>\<open>/[^\w\s@.-}]/g\<close> for the text of a pattern.\<close>

definition keyRegex :: "char \<Rightarrow> bool" where
  "keyRegex c \<longleftrightarrow> \<not> ((CHR ''A'' \<le> c \<and> c \<le> CHR ''z'') \<or> isDigit c \<or> c = CHR ''_'' \<or> c = CHR ''.'')"

definition patternRegex :: "char \<Rightarrow> bool" where
  "patternRegex c \<longleftrightarrow> \<not> (isWord c \<or> isSpace c \<or> c = CHR ''@'' \<or> (CHR ''.'' \<le> c \<and> c \<le> CHR ''}''))"

subsection \<open>The filter compiler\<close>

text \<open>
  \<open>getSimpleFilterValue\<close>, \<open>getMapOfOperatorsWithValues\<close>, \<open>getImplicitANDValue\<close> and
  \<open>getFilter\<close> call one another. The last three are given first, with the classifier they
  call back, \<open>getSimpleFilterValue\<close>, as their first argument \<open>classify\<close>. A function that
  throws returns the error on the left; the first error ends the evaluation.
\<close>

fun mapE :: "('a \<Rightarrow> error + 'b) \<Rightarrow> 'a list \<Rightarrow> error + 'b list" where
  "mapE f [] = Inr []"
| "mapE f (x # xs) =
     (case f x of
        Inl e \<Rightarrow> Inl e
      | Inr y \<Rightarrow> (case mapE f xs of Inl e \<Rightarrow> Inl e | Inr ys \<Rightarrow> Inr (y # ys)))"

definition getMapOfOperatorsWithValues ::
    "(string \<Rightarrow> error + jsval) \<Rightarrow> string list \<Rightarrow> error + jsval list" where
  "getMapOfOperatorsWithValues classify filter' = mapE (\<lambda>item. classify item) filter'"

text \<open>The callback of the reduction in \<open>getImplicitANDValue\<close>, and the reduction.\<close>

definition assignAll :: "QueryObjectModel \<Rightarrow> (string \<times> jsval) list \<Rightarrow> QueryObjectModel" where
  "assignAll acc kvs = foldl (\<lambda>acc (key, v). obj_set acc key v) acc kvs"

fun mergeOperators :: "QueryObjectModel \<Rightarrow> jsval list \<Rightarrow> error + QueryObjectModel" where
  "mergeOperators acc [] = Inr acc"
| "mergeOperators acc (filterValue # rest) =
     (case ownEntries filterValue of
        Inl e \<Rightarrow> Inl e
      | Inr operatorArray \<Rightarrow> mergeOperators (assignAll acc operatorArray) rest)"

definition getImplicitANDValue ::
    "(string \<Rightarrow> error + jsval) \<Rightarrow> string list \<Rightarrow> error + QueryObjectModel" where
  "getImplicitANDValue classify filter' =
     (case getMapOfOperatorsWithValues classify filter' of
        Inl e \<Rightarrow> Inl e
      | Inr filterValuesMap \<Rightarrow> mergeOperators [] filterValuesMap)"

text \<open>The six \<^verbatim>\<open>delete\<close> statements of \<open>getFilter\<close>, which change the object it is given.\<close>

definition deleteReserved :: "RawQuery \<Rightarrow> RawQuery" where
  "deleteReserved query =
     obj_delete ''populate'' (obj_delete ''sort'' (obj_delete ''select''
       (obj_delete ''page'' (obj_delete ''skip'' (obj_delete ''limit'' query)))))"

text \<open>The reduction over \<^verbatim>\<open>Object.keys(query)\<close>.\<close>

fun getFilterReduce ::
    "(string \<Rightarrow> error + jsval) \<Rightarrow> QueryObjectModel \<Rightarrow> RawQuery \<Rightarrow> error + QueryObjectModel" where
  "getFilterReduce classify obj [] = Inr obj"
| "getFilterReduce classify obj ((key, queryValue) # rest) =
     (let cleanKey = cleanString key keyRegex
      in case queryValue of
           RArr xs \<Rightarrow>
             (case getImplicitANDValue classify xs of
                Inl e \<Rightarrow> Inl e
              | Inr v \<Rightarrow> getFilterReduce classify (obj_set obj cleanKey (JObj v)) rest)
         | RStr s \<Rightarrow>
             (case classify s of
                Inl e \<Rightarrow> Inl e
              | Inr v \<Rightarrow>
                  getFilterReduce classify (if v \<noteq> JNull then obj_set obj cleanKey v else obj) rest))"

text \<open>\<open>getFilter\<close> returns the object it was given, as it has left it, and its result. The
  test \<^verbatim>\<open>!query\<close> behind the deletions is false of every object, so the default is never
  returned.\<close>

definition getFilter ::
    "(string \<Rightarrow> error + jsval) \<Rightarrow> RawQuery \<Rightarrow> RawQuery \<times> (error + QueryObjectModel)" where
  "getFilter classify query =
     (let query' = deleteReserved query in (query', getFilterReduce classify [] query'))"

text \<open>The strings on which a query has the classifier called.\<close>

fun tokensOf :: "RawQuery \<Rightarrow> string list" where
  "tokensOf [] = []"
| "tokensOf ((key, RStr s) # rest) = s # tokensOf rest"
| "tokensOf ((key, RArr xs) # rest) = xs @ tokensOf rest"

lemma mapE_cong [fundef_cong]:
  assumes "xs = ys" and "\<And>x. x \<in> set ys \<Longrightarrow> f x = g x"
  shows "mapE f xs = mapE g ys"
proof -
  have "(\<And>x. x \<in> set ys \<Longrightarrow> f x = g x) \<Longrightarrow> mapE f ys = mapE g ys"
  proof (induction ys)
    case Nil
    show ?case by simp
  next
    case (Cons a ys)
    have "f a = g a" by (simp add: Cons.prems)
    moreover have "mapE f ys = mapE g ys" by (rule Cons.IH) (simp add: Cons.prems)
    ultimately show ?case by (simp only: mapE.simps)
  qed
  with assms show ?thesis by simp
qed

lemma getMapOfOperatorsWithValues_cong [fundef_cong]:
  assumes "xs = ys" and "\<And>x. x \<in> set ys \<Longrightarrow> f x = g x"
  shows "getMapOfOperatorsWithValues f xs = getMapOfOperatorsWithValues g ys"
proof -
  have "mapE (\<lambda>item. f item) xs = mapE (\<lambda>item. g item) ys"
    using assms by (rule mapE_cong)
  then show ?thesis by (simp only: getMapOfOperatorsWithValues_def)
qed

lemma getImplicitANDValue_cong [fundef_cong]:
  assumes "xs = ys" and "\<And>x. x \<in> set ys \<Longrightarrow> f x = g x"
  shows "getImplicitANDValue f xs = getImplicitANDValue g ys"
proof -
  have "getMapOfOperatorsWithValues f xs = getMapOfOperatorsWithValues g ys"
    using assms by (rule getMapOfOperatorsWithValues_cong)
  then show ?thesis by (simp only: getImplicitANDValue_def)
qed

lemma getFilterReduce_cong:
  "(\<And>x. x \<in> set (tokensOf q) \<Longrightarrow> f x = g x) \<Longrightarrow> getFilterReduce f obj q = getFilterReduce g obj q"
proof (induction q arbitrary: obj rule: tokensOf.induct)
  case 1
  show ?case by simp
next
  case (2 key s rest)
  have r: "\<And>obj. getFilterReduce f obj rest = getFilterReduce g obj rest"
    by (rule "2.IH") (simp add: "2.prems")
  have "f s = g s" by (simp add: "2.prems")
  then show ?case by (simp only: getFilterReduce.simps raw.case r)
next
  case (3 key xs rest)
  have r: "\<And>obj. getFilterReduce f obj rest = getFilterReduce g obj rest"
    by (rule "3.IH") (simp add: "3.prems")
  have "getImplicitANDValue f xs = getImplicitANDValue g xs"
    by (rule getImplicitANDValue_cong) (simp_all add: "3.prems")
  then show ?case by (simp only: getFilterReduce.simps raw.case r)
qed

lemma getFilter_cong [fundef_cong]:
  assumes "q = q'" and "\<And>x. x \<in> set (tokensOf (deleteReserved q')) \<Longrightarrow> f x = g x"
  shows "getFilter f q = getFilter g q'"
proof -
  have "getFilterReduce f [] (deleteReserved q') = getFilterReduce g [] (deleteReserved q')"
    using assms(2) by (rule getFilterReduce_cong)
  then show ?thesis by (simp only: getFilter_def Let_def assms(1))
qed

text \<open>The object built from the sub-query of an element match: \<^verbatim>\<open>#\<close> separates its
  parameters. The \<^verbatim>\<open>console.log\<close> of the source at this place is not modelled.\<close>

definition constructElemMatchFilter :: "string \<Rightarrow> RawQuery" where
  "constructElemMatchFilter value =
     foldl (\<lambda>obj (key, v). obj_set obj key (RStr v)) []
       (URLSearchParams (replaceChar CHR ''#'' ''&'' value))"

text \<open>The pieces of a token of several \<^verbatim>\<open>{op}value\<close> groups.\<close>

definition queryAndValues :: "string \<Rightarrow> string list" where
  "queryAndValues filter' =
     List.filter (\<lambda>val. val \<noteq> []) (splitChar CHR '','' (replaceChar CHR ''{'' '',{'' filter'))"

subsection \<open>Every recursive call is on a shorter token\<close>

lemma indexOf_ge: "0 \<le> indexOf s c \<longleftrightarrow> c \<in> set s"
  by (induction s) (auto simp: Let_def)

lemma indexOf_lt: "indexOf s c < int (length s)"
  by (induction s) (auto simp: Let_def)

lemma startsWith_set: "startsWith s p \<Longrightarrow> set p \<subseteq> set s"
  by (induction p arbitrary: s) (auto split: list.splits)

lemma operand_shorter:
  assumes "c \<in> set s"
  shows "length (substring1 s (indexOf s c + 1)) < length s"
proof -
  from assms have "0 \<le> indexOf s c" by (simp add: indexOf_ge)
  moreover from assms have "s \<noteq> []" by auto
  ultimately show ?thesis
    using indexOf_lt [of s c] by (simp add: substring1_def clampIndex_def)
qed

lemma splitChar_not_Nil: "splitChar c s \<noteq> []"
  by (induction s) (auto split: list.splits)

lemma splitChar_le: "p \<in> set (splitChar c s) \<Longrightarrow> length p \<le> length s"
proof (induction s arbitrary: p)
  case Nil
  then show ?case by simp
next
  case (Cons x xs)
  obtain q qs where q: "splitChar c xs = q # qs"
    using splitChar_not_Nil [of c xs] by (cases "splitChar c xs") auto
  have "length q \<le> length xs" by (rule Cons.IH) (simp add: q)
  moreover have "\<And>r. r \<in> set qs \<Longrightarrow> length r \<le> length xs" by (rule Cons.IH) (simp add: q)
  ultimately show ?case using Cons.prems q by (auto split: if_splits intro: le_SucI)
qed

lemma splitChar_shorter:
  "c \<in> set s \<Longrightarrow> p \<in> set (splitChar c s) \<Longrightarrow> length p < length s"
proof (induction s arbitrary: p)
  case Nil
  then show ?case by simp
next
  case (Cons x xs)
  obtain q qs where q: "splitChar c xs = q # qs"
    using splitChar_not_Nil [of c xs] by (cases "splitChar c xs") auto
  show ?case
  proof (cases "x = c")
    case True
    with Cons.prems(2) have "p = [] \<or> p \<in> set (splitChar c xs)" by simp
    then show ?thesis using splitChar_le [of p c xs] by auto
  next
    case False
    with Cons.prems(1) have c: "c \<in> set xs" by simp
    have "length q < length xs" by (rule Cons.IH [OF c]) (simp add: q)
    moreover have "\<And>r. r \<in> set qs \<Longrightarrow> length r < length xs"
      by (rule Cons.IH [OF c]) (simp add: q)
    ultimately show ?thesis using Cons.prems(2) q False by (auto intro: less_SucI)
  qed
qed


lemma indexOf_notin: "c \<notin> set s \<Longrightarrow> indexOf s c = -1"
  by (induction s) (auto simp: Let_def)

lemma splitChar_notin: "c \<notin> set s \<Longrightarrow> splitChar c s = [s]"
  by (induction s) auto

lemma replaceChar_Cons:
  "replaceChar c r (x # xs) = (if x = c then r else [x]) @ replaceChar c r xs"
  by (simp add: replaceChar_def)

lemma andPieces_Cons:
  assumes "splitChar CHR '','' (replaceChar CHR ''{'' '',{'' xs) = q # qs"
  shows "splitChar CHR '','' (replaceChar CHR ''{'' '',{'' (x # xs)) =
    (if x = CHR '','' then [] # q # qs
     else if x = CHR ''{'' then [] # (CHR ''{'' # q) # qs
     else (x # q) # qs)"
  using assms by (simp add: replaceChar_Cons)

lemma andPieces_le:
  "p \<in> set (splitChar CHR '','' (replaceChar CHR ''{'' '',{'' s)) \<Longrightarrow> length p \<le> length s"
proof (induction s arbitrary: p)
  case Nil
  then show ?case by (simp add: replaceChar_def)
next
  case (Cons x xs)
  obtain q qs where q: "splitChar CHR '','' (replaceChar CHR ''{'' '',{'' xs) = q # qs"
    using splitChar_not_Nil by (cases "splitChar CHR '','' (replaceChar CHR ''{'' '',{'' xs)") auto
  have "length q \<le> length xs" by (rule Cons.IH) (simp add: q)
  moreover have "\<And>r. r \<in> set qs \<Longrightarrow> length r \<le> length xs" by (rule Cons.IH) (simp add: q)
  ultimately show ?case
    using Cons.prems unfolding andPieces_Cons [OF q]
    by (auto split: if_splits intro: le_SucI)
qed

lemma andPieces_head:
  "splitChar CHR '','' (replaceChar CHR ''{'' '',{'' s) = q # qs \<Longrightarrow> length q = length s \<Longrightarrow>
   CHR '','' \<notin> set s \<and> CHR ''{'' \<notin> set s"
proof (induction s arbitrary: q qs)
  case Nil
  then show ?case by simp
next
  case (Cons x xs)
  obtain q0 qs0 where q0: "splitChar CHR '','' (replaceChar CHR ''{'' '',{'' xs) = q0 # qs0"
    using splitChar_not_Nil by (cases "splitChar CHR '','' (replaceChar CHR ''{'' '',{'' xs)") auto
  from Cons.prems have x: "x \<noteq> CHR '',''" "x \<noteq> CHR ''{''" and q: "q = x # q0"
    unfolding andPieces_Cons [OF q0] by (auto split: if_splits)
  with Cons.prems(2) have "length q0 = length xs" by simp
  from Cons.IH [OF q0 this] x show ?case by simp
qed

lemma queryAndValues_shorter:
  assumes "isANDFilter s" and "p \<in> set (queryAndValues s)"
  shows "length p < length s"
proof (cases s)
  case Nil
  with assms(1) show ?thesis by (simp add: isANDFilter_def)
next
  case (Cons x xs)
  obtain q qs where q: "splitChar CHR '','' (replaceChar CHR ''{'' '',{'' xs) = q # qs"
    using splitChar_not_Nil by (cases "splitChar CHR '','' (replaceChar CHR ''{'' '',{'' xs)") auto
  have le: "\<And>r. r \<in> set (q # qs) \<Longrightarrow> length r \<le> length xs"
    using andPieces_le [of _ xs] by (simp add: q)
  from assms(2) have p: "p \<in> set (splitChar CHR '','' (replaceChar CHR ''{'' '',{'' (x # xs)))"
    by (simp add: queryAndValues_def Cons)
  show ?thesis
  proof (cases "length q = length xs")
    case False
    with le [of q] have "length q < length xs" by simp
    with p le show ?thesis
      unfolding andPieces_Cons [OF q] Cons by (auto split: if_splits intro: le_imp_less_Suc)
  next
    case True
    from andPieces_head [OF q True] have free: "CHR '','' \<notin> set xs" "CHR ''{'' \<notin> set xs"
      by simp_all
    have "\<not> isANDFilter (x # xs)"
    proof (cases "x = CHR ''{''")
      case True
      then show ?thesis by (simp add: isANDFilter_def splitChar_notin [OF free(2)])
    next
      case False
      with free(2) have "CHR ''{'' \<notin> set (x # xs)" by simp
      then show ?thesis by (simp only: isANDFilter_def indexOf_notin if_True simp_thms)
    qed
    with assms(1) Cons show ?thesis by simp
  qed
qed

lemma percentDecode_le: "length (percentDecode s) \<le> length s"
  by (induction s rule: percentDecode.induct) auto

lemma formDecode_le: "length (formDecode s) \<le> length s"
  using percentDecode_le [of "map (\<lambda>c. if c = CHR ''+'' then CHR '' '' else c) s"]
  by (simp add: formDecode_def)

lemma URLSearchParams_le:
  assumes "(k, v) \<in> set (URLSearchParams s)"
  shows "length v \<le> length s"
proof -
  let ?s = "if startsWith s ''?'' then tl s else s"
  from assms obtain p where p: "p \<in> set (splitChar CHR ''&'' ?s)"
    and v: "v = [] \<or> v = formDecode (drop (nat (indexOf p CHR ''='') + 1) p)"
    by (auto simp: URLSearchParams_def Let_def split: if_splits)
  have "length p \<le> length ?s" using p by (rule splitChar_le)
  also have "\<dots> \<le> length s" by simp
  finally have "length p \<le> length s" .
  moreover have "length (formDecode (drop (nat (indexOf p CHR ''='') + 1) p)) \<le> length p"
    using formDecode_le [of "drop (nat (indexOf p CHR ''='') + 1) p"] by simp
  ultimately show ?thesis using v by auto
qed

lemma length_replaceChar_single: "length (replaceChar c [d] s) = length s"
  by (induction s) (simp_all add: replaceChar_def)

lemma insertIndex_entries:
  "e \<in> set (insertIndex k v obj) \<Longrightarrow> e = (k, v) \<or> e \<in> set obj"
  by (induction obj) (auto split: if_splits)

lemma obj_set_entries: "e \<in> set (obj_set obj k v) \<Longrightarrow> snd e = v \<or> e \<in> set obj"
  unfolding obj_set_def obj_define_def
  by (auto split: if_splits dest: insertIndex_entries)

lemma construct_entries:
  assumes "(k, w) \<in> set (foldl (\<lambda>obj (key, v). obj_set obj key (RStr v)) acc ps)"
  shows "(k, w) \<in> set acc \<or> (\<exists>k' v. (k', v) \<in> set ps \<and> w = RStr v)"
  using assms
proof (induction ps arbitrary: acc)
  case Nil
  then show ?case by simp
next
  case (Cons a ps)
  obtain key v where a: "a = (key, v)" by (cases a)
  from Cons.prems have "(k, w) \<in> set (foldl (\<lambda>obj (key, v). obj_set obj key (RStr v)) (obj_set acc key (RStr v)) ps)"
    by (simp add: a)
  from Cons.IH [OF this] show ?case
    using obj_set_entries [of "(k, w)" acc key "RStr v"] a by auto
qed

lemma tokensOf_entries:
  "x \<in> set (tokensOf q) \<Longrightarrow>
   (\<exists>k. (k, RStr x) \<in> set q) \<or> (\<exists>k xs. (k, RArr xs) \<in> set q \<and> x \<in> set xs)"
  by (induction q rule: tokensOf.induct) auto

lemma set_deleteReserved: "set (deleteReserved q) \<subseteq> set q"
  by (auto simp: deleteReserved_def obj_delete_def)

lemma elemMatch_tokens_le:
  assumes "x \<in> set (tokensOf (deleteReserved (constructElemMatchFilter v)))"
  shows "length x \<le> length v"
proof -
  from tokensOf_entries [OF assms] set_deleteReserved
  have "(\<exists>k. (k, RStr x) \<in> set (constructElemMatchFilter v)) \<or>
        (\<exists>k xs. (k, RArr xs) \<in> set (constructElemMatchFilter v) \<and> x \<in> set xs)"
    by blast
  then obtain k where "(k, x) \<in> set (URLSearchParams (replaceChar CHR ''#'' ''&'' v))"
    unfolding constructElemMatchFilter_def by (auto dest!: construct_entries)
  from URLSearchParams_le [OF this] show ?thesis
    by (simp add: length_replaceChar_single)
qed


lemma startsWith_mem: "startsWith s p \<Longrightarrow> c \<in> set p \<Longrightarrow> c \<in> set s"
  using startsWith_set by blast

lemma tag_has_brace:
  "isElementMatchFilter s \<or> isLogicalOperator s \<or> isComparisonFilter s \<Longrightarrow> CHR ''}'' \<in> set s"
  unfolding isElementMatchFilter_def isLogicalOperator_def isComparisonFilter_def list_ex_iff
  by (auto simp del: startsWith.simps elim!: startsWith_mem)

lemma operand_of_tag_shorter:
  assumes "isElementMatchFilter s \<or> isLogicalOperator s \<or> isComparisonFilter s"
  shows "length (substring1 s (indexOf s CHR ''}'' + 1)) < length s"
  using assms by (intro operand_shorter tag_has_brace)

lemma isORFilter_has_bar: "isORFilter s \<Longrightarrow> CHR ''|'' \<in> set s"
  using indexOf_notin [of "CHR ''|''" s] by (auto simp: isORFilter_def split: if_splits)

subsection \<open>\<open>getSimpleFilterValue\<close>\<close>

function getSimpleFilterValue :: "dateHost \<Rightarrow> string \<Rightarrow> error + jsval" where
  "getSimpleFilterValue toISOString filter' =
     (if filter' = [] then Inr JNull
      else if isJson filter' then
        (case JSON_parse filter' of None \<Rightarrow> Inl SyntaxError | Some v \<Rightarrow> Inr v)
      else if isElementMatchFilter filter' then
        (let first_dot_index = indexOf filter' CHR ''}'';
             operator = substring2 filter' 1 first_dot_index;
             value = substring1 filter' (first_dot_index + 1)
         in if value = [] then Inr JNull
            else (case snd (getFilter (getSimpleFilterValue toISOString)
                              (constructElemMatchFilter value)) of
                    Inl e \<Rightarrow> Inl e
                  | Inr sub \<Rightarrow> Inr (JObj [(''$'' @ operator, JObj sub)])))
      else if isLogicalOperator filter' then
        (let first_dot_index = indexOf filter' CHR ''}'';
             operator = substring2 filter' 1 first_dot_index;
             value = substring1 filter' (first_dot_index + 1)
         in case getSimpleFilterValue toISOString value of
              Inl e \<Rightarrow> Inl e
            | Inr v \<Rightarrow> Inr (JObj [(''$'' @ operator, v)]))
      else if isORFilter filter' then
        (case getMapOfOperatorsWithValues (getSimpleFilterValue toISOString)
                (splitChar CHR ''|'' filter') of
           Inl e \<Rightarrow> Inl e
         | Inr vs \<Rightarrow> Inr (JObj [(''$or'', JArr vs)]))
      else if isANDFilter filter' then
        (case getImplicitANDValue (getSimpleFilterValue toISOString) (queryAndValues filter') of
           Inl e \<Rightarrow> Inl e
         | Inr merged \<Rightarrow> Inr (JObj merged))
      else if isComparisonFilter filter' then
        (let first_dot_index = indexOf filter' CHR ''}'';
             operator = substring2 filter' 1 first_dot_index;
             value = substring1 filter' (first_dot_index + 1)
         in if value = [] then Inr JNull
            else (case getSimpleFilterValue toISOString value of
                    Inl e \<Rightarrow> Inl e
                  | Inr v \<Rightarrow> Inr (JObj [(''$'' @ operator, v)])))
      else if isElementFilter filter' then
        (let first_dot_index = indexOf filter' CHR ''}'';
             operator = substring2 filter' 1 first_dot_index;
             value = substring1 filter' (first_dot_index + 1)
         in if value = [] then Inr JNull
            else if operator = ''exists'' then Inr (getElementExists value)
            else Inr (getElementType value))
      else if isISODate filter' \<or> isISODateTime filter' then
        (case toISOString filter' of None \<Rightarrow> Inl RangeError | Some date \<Rightarrow> Inr (JStr date))
      else if isNumberString filter' then Inr (JNum (toNumber filter'))
      else if filter' = ''true'' \<or> filter' = ''false'' then Inr (JBool (filter' = ''true''))
      else if indexOf filter' CHR ''*'' = -1 \<and> \<not> startsWith filter' ''{regex}'' then Inr (JStr filter')
      else
        (case (if startsWith filter' ''{regex}''
               then (case splitStr ''{regex}'' filter' of a # b # rest \<Rightarrow> Some b | _ \<Rightarrow> None)
               else Some filter') of
           None \<Rightarrow> Inl TypeError
         | Some pattern \<Rightarrow>
             (let value = cleanString pattern patternRegex;
                  regex = (if startsWith pattern ''*''
                           then (if endsWith pattern ''*'' then substring1 (''^'' @ value) 1
                                 else ''^'' @ value)
                           else if endsWith pattern ''*'' then value @ ''$''
                           else value)
              in Inr (JObj [(''$regex'', JStr regex), (''$options'', JStr ''i'')]))))"
  by pat_completeness auto
termination
proof (relation "measure (\<lambda>(toISOString, filter'). length filter')", goal_cases)
  case 1
  show ?case by simp
next
  case (2 toISOString filter' first_dot_index operator "value" x)
  with elemMatch_tokens_le [of x "value"] operand_of_tag_shorter [of filter']
  show ?case by simp
next
  case (3 toISOString filter' first_dot_index operator "value")
  with operand_of_tag_shorter [of filter'] show ?case by simp
next
  case (4 toISOString filter' x)
  with splitChar_shorter [OF isORFilter_has_bar, of filter' x] show ?case by simp
next
  case (5 toISOString filter' x)
  with queryAndValues_shorter [of filter' x] show ?case by simp
next
  case (6 toISOString filter' first_dot_index operator "value")
  with operand_of_tag_shorter [of filter'] show ?case by simp
qed

declare getSimpleFilterValue.simps [simp del]

subsection \<open>Pagination, projection and ordering\<close>

text \<open>
  A value of the query is falsy when it is absent or the empty string; an array is an
  object and never falsy. Where a function written for a string is handed an array, the
  regular expression test of the validator and the unary plus see it through
  \<^verbatim>\<open>ToString\<close>, its elements joined by commas, while \<^verbatim>\<open>split\<close>, which an array does not have,
  throws a \<^verbatim>\<open>TypeError\<close>.
\<close>

definition truthy :: "raw option \<Rightarrow> bool" where
  "truthy v = (case v of None \<Rightarrow> False | Some (RStr s) \<Rightarrow> s \<noteq> [] | Some (RArr xs) \<Rightarrow> True)"

fun joinComma :: "string list \<Rightarrow> string" where
  "joinComma [] = []"
| "joinComma [x] = x"
| "joinComma (x # y # ys) = x @ '','' @ joinComma (y # ys)"

definition rawToString :: "raw option \<Rightarrow> string" where
  "rawToString v = (case v of None \<Rightarrow> ''undefined'' | Some (RStr s) \<Rightarrow> s | Some (RArr xs) \<Rightarrow> joinComma xs)"

text \<open>
  The numbers of the pagination are doubles. A double that arises here is an integer, an
  infinity or \<^verbatim>\<open>NaN\<close>; the two zeros are taken as one. An integer of at most 53 significant
  bits is a double. Every other integer \<open>n\<close> lies between two neighbouring doubles
  \<open>q * 2 ^ e\<close> and \<open>(q + 1) * 2 ^ e\<close>, where \<open>e\<close> is the number of bits of \<open>n\<close> beyond 53, and
  is rounded to the nearer of the two, to the one with the even significand when both are
  equally near; a magnitude that is rounded to \<open>2 ^ 1024\<close> or more is an infinity.
\<close>

datatype number = Finite int | Infinity | MinusInfinity | NaN

text \<open>The number of bits of a natural number.\<close>

function bitLength :: "nat \<Rightarrow> nat" where
  "bitLength n = (if n = 0 then 0 else Suc (bitLength (n div 2)))"
  by pat_completeness auto
termination
  by (relation "measure id") auto

declare bitLength.simps [simp del]

definition roundNat :: "nat \<Rightarrow> nat" where
  "roundNat n =
     (if n < 2 ^ 53 then n
      else (let e = bitLength n - 53;
                q = n div 2 ^ e;
                r = n mod 2 ^ e;
                up = (2 ^ (e - 1) < r \<or> (r = 2 ^ (e - 1) \<and> odd q))
            in (if up then q + 1 else q) * 2 ^ e))"

definition toDouble :: "int \<Rightarrow> number" where
  "toDouble i =
     (let m = roundNat (nat \<bar>i\<bar>)
      in if 2 ^ 1024 \<le> m then (if i < 0 then MinusInfinity else Infinity)
         else Finite (if i < 0 then - int m else int m))"

text \<open>The operators \<^verbatim>\<open>a > b\<close>, \<^verbatim>\<open>a - b\<close> and \<^verbatim>\<open>a * b\<close> on these numbers: the exact result of two
  integers is rounded, \<^verbatim>\<open>NaN\<close> is greater than nothing and makes every result \<^verbatim>\<open>NaN\<close>, as do the
  difference of an infinity and itself and the product of an infinity and zero.\<close>

fun numGreater :: "number \<Rightarrow> number \<Rightarrow> bool" where
  "numGreater (Finite x) (Finite y) = (y < x)"
| "numGreater NaN b = False"
| "numGreater a NaN = False"
| "numGreater a Infinity = False"
| "numGreater MinusInfinity b = False"
| "numGreater Infinity b = True"
| "numGreater (Finite x) MinusInfinity = True"

fun numSub :: "number \<Rightarrow> number \<Rightarrow> number" where
  "numSub (Finite x) (Finite y) = toDouble (x - y)"
| "numSub NaN b = NaN"
| "numSub a NaN = NaN"
| "numSub Infinity Infinity = NaN"
| "numSub MinusInfinity MinusInfinity = NaN"
| "numSub Infinity b = Infinity"
| "numSub MinusInfinity b = MinusInfinity"
| "numSub (Finite x) Infinity = MinusInfinity"
| "numSub (Finite x) MinusInfinity = Infinity"

fun numMul :: "number \<Rightarrow> number \<Rightarrow> number" where
  "numMul (Finite x) (Finite y) = toDouble (x * y)"
| "numMul NaN b = NaN"
| "numMul a NaN = NaN"
| "numMul (Finite x) b =
     (if x = 0 then NaN else if (0 < x) = (b = Infinity) then Infinity else MinusInfinity)"
| "numMul a (Finite y) =
     (if y = 0 then NaN else if (0 < y) = (a = Infinity) then Infinity else MinusInfinity)"
| "numMul a b = (if a = b then Infinity else MinusInfinity)"

text \<open>\<open>getIntKey\<close>: the unary plus on a string of digits is the double nearest to the number
  that the digits write.\<close>

definition getIntKey :: "RawQuery \<Rightarrow> string \<Rightarrow> number \<Rightarrow> number" where
  "getIntKey query key def =
     (if \<not> truthy (map_of query key) \<or> \<not> isInt (rawToString (map_of query key)) then def
      else toDouble (int (natOfDigits (rawToString (map_of query key)))))"

definition getSkipFromPage :: "RawQuery \<Rightarrow> number \<Rightarrow> number \<Rightarrow> number" where
  "getSkipFromPage query def limit =
     (let page = getIntKey query ''page'' def
      in if numGreater page (Finite 1) then numMul (numSub page (Finite 1)) limit else Finite 0)"

definition getSelect :: "RawQuery \<Rightarrow> QueryObjectModel \<Rightarrow> error + QueryObjectModel" where
  "getSelect query def =
     (if \<not> truthy (map_of query ''select'') then Inr def
      else case map_of query ''select'' of
             Some (RStr s) \<Rightarrow>
               Inr (foldl (\<lambda>obj key. obj_set obj (cleanString key keyRegex)
                                     (JNum (if startsWith key ''-'' then 0 else 1)))
                      [] (splitString s CHR '',''))
           | _ \<Rightarrow> Inl TypeError)"

definition getSort :: "RawQuery \<Rightarrow> QueryObjectModel \<Rightarrow> error + QueryObjectModel" where
  "getSort query def =
     (if \<not> truthy (map_of query ''sort'') then Inr def
      else case map_of query ''sort'' of
             Some (RStr s) \<Rightarrow>
               Inr (foldl (\<lambda>obj key. obj_set obj (cleanString key keyRegex)
                                     (JNum (if startsWith key ''-'' then - 1 else 1)))
                      [] (splitString s CHR '',''))
           | _ \<Rightarrow> Inl TypeError)"

subsection \<open>\<open>parse\<close>\<close>

text \<open>The fields that \<open>parse\<close> assigns; \<open>populate\<close> is never assigned.\<close>

record MongoQueryModel =
  limit :: number
  skip :: number
  sort' :: QueryObjectModel
  select :: QueryObjectModel
  filter' :: QueryObjectModel

text \<open>\<open>parse\<close> returns the query object as it has left it together with its result.\<close>

definition parse :: "dateHost \<Rightarrow> RawQuery \<Rightarrow> RawQuery \<times> (error + MongoQueryModel)" where
  "parse toISOString query =
     (let def_limit = Finite 100;
          def_skip = Finite 0;
          def_page = Finite 1;
          result_limit = getIntKey query ''limit'' def_limit;
          result_skip = (if truthy (map_of query ''page'')
                         then getSkipFromPage query def_page result_limit
                         else getIntKey query ''skip'' def_skip)
      in case getSelect query [] of
           Inl e \<Rightarrow> (query, Inl e)
         | Inr result_select \<Rightarrow>
             (case getSort query [] of
                Inl e \<Rightarrow> (query, Inl e)
              | Inr result_sort \<Rightarrow>
                  (case getFilter (getSimpleFilterValue toISOString) query of
                     (query', Inl e) \<Rightarrow> (query', Inl e)
                   | (query', Inr result_filter) \<Rightarrow>
                       (query', Inr \<lparr>limit = result_limit, skip = result_skip,
                                     sort' = result_sort, select = result_select,
                                     filter' = result_filter\<rparr>))))"

section \<open>Properties\<close>

text \<open>The facts that evaluate the parser on a given query.\<close>

lemmas classify_eval = getSimpleFilterValue.simps isJson_def JSON_parse_def isJsonWs_def isDigit_def
  lexNumber_def lexInt_def lexFrac_def lexExp_def natOfDigits_def digitVal_def obj_set_def obj_define_def
  isArrayIndex_def escapeChar_def Let_def isElementMatchFilter_def isLogicalOperator_def logical_def
  isORFilter_def isANDFilter_def isComparisonFilter_def isElementFilter_def
  isISODate_def isISODateTime_def isNumberString_def toNumber_def testString_def orClass_def orLast_def
  isWord_def isUpper_def isLower_def isSpace_def substring1_def substring2_def clampIndex_def
  getMapOfOperatorsWithValues_def getImplicitANDValue_def queryAndValues_def replaceChar_def
  assignAll_def cleanString_def patternRegex_def keyRegex_def endsWith_def getElementExists_def
  getElementType_def validTypes_def splitStr_def getFilter_def deleteReserved_def obj_delete_def
  decimal.simps digitChar_def upt_rec

lemmas parse_eval = parse_def getIntKey_def getSkipFromPage_def getSelect_def getSort_def
  truthy_def rawToString_def isInt_def splitString_def toDouble_def roundNat_def

subsection \<open>A malformed element of a repeated key\<close>

text \<open>
  C1. The claim is that compiling a filter never throws, also when an element of a repeated
  key or a group of a brace-concatenated token is malformed. The code throws in both cases:
  the malformed piece is classified to \<^verbatim>\<open>null\<close>, and \<open>getImplicitANDValue\<close> hands that \<^verbatim>\<open>null\<close> to
  \<^verbatim>\<open>Object.keys\<close>, where the path of a single value tests for it.
\<close>

theorem getFilter_throws_on_malformed_element:
  "snd (getFilter (getSimpleFilterValue toISOString) [(''age'', RArr [''{gt}'', ''{lt}5''])])
     = Inl TypeError
   \<and> snd (getFilter (getSimpleFilterValue toISOString) [(''age'', RStr ''{gt}5{lt}'')])
     = Inl TypeError"
  by (simp add: classify_eval)

subsection \<open>The characters a key keeps\<close>

text \<open>
  C3. The claim is that the sanitizer of keys keeps letters, digits, underscore and dot
  only. The range \<^verbatim>\<open>A-z\<close> of its regular expression also holds the characters between
  \<^verbatim>\<open>Z\<close> and \<^verbatim>\<open>a\<close>, so a bracket, a backslash, a caret or a backquote stays in a key of the
  filter, of the projection and of the ordering.
\<close>

theorem sanitizer_keeps_range_characters:
  "cleanString ''a[0]^b'' keyRegex = ''a[0]^b''
   \<and> snd (getFilter (getSimpleFilterValue toISOString) [(''a^b'', RStr ''x'')])
       = Inr [(''a^b'', JStr ''x'')]
   \<and> getSelect [(''select'', RStr ''a^b'')] [] = Inr [(''a^b'', JNum 1)]
   \<and> getSort [(''sort'', RStr ''-a^b'')] [] = Inr [(''a^b'', JNum (- 1))]"
  by (simp add: classify_eval parse_eval)

subsection \<open>A filter of three keys\<close>

text \<open>
  The claim C4 gives the pattern \<^verbatim>\<open>jo$\<close> for the token \<^verbatim>\<open>*jo\<close>. No host makes the code
  compile the filter of the claim.
\<close>

theorem three_key_filter_not_as_claimed:
  "\<forall>toISOString.
     snd (getFilter (getSimpleFilterValue toISOString)
       [(''name'', RStr ''*jo''), (''age'', RStr ''{gte}18{lte}65''), (''status'', RStr ''a|b'')])
     \<noteq> Inr [(''name'', JObj [(''$regex'', JStr ''jo$''), (''$options'', JStr ''i'')]),
            (''age'', JObj [(''$gte'', JNum 18), (''$lte'', JNum 65)]),
            (''status'', JObj [(''$or'', JArr [JStr ''a'', JStr ''b''])])]"
  by (simp add: classify_eval)

text \<open>
  C4, amended. The code anchors a token that starts with the star at its start: the filter
  \<^verbatim>\<open>{ name: "*jo", age: "{gte}18{lte}65", status: "a|b" }\<close> compiles to the pattern \<^verbatim>\<open>^jo\<close> for
  the name, to the two bounds in one object for the age and to the alternatives for the
  status.
\<close>

theorem three_key_filter:
  "snd (getFilter (getSimpleFilterValue toISOString)
     [(''name'', RStr ''*jo''), (''age'', RStr ''{gte}18{lte}65''), (''status'', RStr ''a|b'')])
   = Inr [(''name'', JObj [(''$regex'', JStr ''^jo''), (''$options'', JStr ''i'')]),
          (''age'', JObj [(''$gte'', JNum 18), (''$lte'', JNum 65)]),
          (''status'', JObj [(''$or'', JArr [JStr ''a'', JStr ''b''])])]"
  by (simp add: classify_eval)

subsection \<open>A tag without a value\<close>

text \<open>The tags whose branch tests for the empty value.\<close>

lemma empty_value_null:
  "list_all (\<lambda>tag. getSimpleFilterValue toISOString tag = Inr JNull)
     [''{eq}'', ''{gt}'', ''{gte}'', ''{in}'', ''{lt}'', ''{lte}'', ''{ne}'', ''{nin}'',
      ''{exists}'', ''{type}'', ''{elemMatch}'']"
  by (simp add: classify_eval)

text \<open>
  C5. The claim is that every tag followed by nothing is classified to \<^verbatim>\<open>null\<close> and its key
  left out. The comparison tags, the element tags and \<^verbatim>\<open>{elemMatch}\<close> test for the empty
  value; the branch of the logical tags does not, wraps the \<^verbatim>\<open>null\<close> of the empty value
  and the key stays in the filter.
\<close>

theorem logical_tag_without_value:
  "getSimpleFilterValue toISOString ''{and}'' = Inr (JObj [(''$and'', JNull)])
   \<and> getSimpleFilterValue toISOString ''{or}'' = Inr (JObj [(''$or'', JNull)])
   \<and> getSimpleFilterValue toISOString ''{not}'' = Inr (JObj [(''$not'', JNull)])
   \<and> getSimpleFilterValue toISOString ''{nor}'' = Inr (JObj [(''$nor'', JNull)])
   \<and> snd (getFilter (getSimpleFilterValue toISOString) [(''k'', RStr ''{and}'')])
       = Inr [(''k'', JObj [(''$and'', JNull)])]"
  by (simp add: classify_eval)

subsection \<open>What \<open>parse\<close> does to the query it is given\<close>

lemma deleteReserved_filter:
  "deleteReserved query =
     List.filter (\<lambda>(k, v). k \<notin> set [''limit'', ''skip'', ''page'', ''select'', ''sort'', ''populate'']) query"
  by (induction query) (auto simp: deleteReserved_def obj_delete_def)

text \<open>
  The claim C2 is that \<open>parse\<close> and the filter compiler leave the query they are given
  unchanged. \<open>getFilter\<close> deletes the six reserved keys from that very object, so a query
  with a \<^verbatim>\<open>limit\<close> is not what it was once \<open>parse\<close> has returned.
\<close>

theorem parse_changes_its_query:
  "\<not> (\<forall>toISOString query. fst (parse toISOString query) = query)"
proof
  assume "\<forall>toISOString query. fst (parse toISOString query) = query"
  then have "fst (parse (\<lambda>s. None) [(''limit'', RStr ''10''), (''name'', RStr ''x'')])
    = [(''limit'', RStr ''10''), (''name'', RStr ''x'')]"
    by blast
  then show False
    by (simp add: classify_eval parse_eval)
qed

text \<open>
  C2, amended. The query that \<open>getFilter\<close> leaves behind is the query it was given without
  the reserved keys, every other entry as it was and in its place. The same holds of
  \<open>parse\<close> once it has reached the filter compiler; where the projection or the ordering
  has thrown before that, the query is as it was.
\<close>

theorem parse_deletes_reserved_keys:
  "fst (getFilter classify query) =
     List.filter (\<lambda>(k, v). k \<notin> set [''limit'', ''skip'', ''page'', ''select'', ''sort'', ''populate'']) query
   \<and> fst (parse toISOString query) =
     (if getSelect query [] = Inl TypeError \<or> getSort query [] = Inl TypeError then query
      else List.filter (\<lambda>(k, v). k \<notin> set [''limit'', ''skip'', ''page'', ''select'', ''sort'', ''populate'']) query)"
proof -
  have sel: "getSelect query [] = Inl TypeError \<or> (\<exists>s. getSelect query [] = Inr s)"
    by (auto simp: getSelect_def split: option.splits raw.splits)
  have srt: "getSort query [] = Inl TypeError \<or> (\<exists>s. getSort query [] = Inr s)"
    by (auto simp: getSort_def split: option.splits raw.splits)
  have f: "fst (getFilter classify query) = deleteReserved query" for classify
    by (simp add: getFilter_def Let_def)
  have "fst (parse toISOString query) =
     (if getSelect query [] = Inl TypeError \<or> getSort query [] = Inl TypeError then query
      else deleteReserved query)"
    using sel srt f [of "getSimpleFilterValue toISOString"]
    by (auto simp: parse_def Let_def split: sum.splits prod.splits)
  with f [of classify] show ?thesis
    by (simp only: deleteReserved_filter)
qed

subsection \<open>The numbers of the pagination\<close>

text \<open>A number of \<open>n\<close> bits lies between \<open>2 ^ (n - 1)\<close> and \<open>2 ^ n\<close>.\<close>

lemma bitLength_bounds: "0 < n \<Longrightarrow> 2 ^ (bitLength n - 1) \<le> n \<and> n < 2 ^ bitLength n"
proof (induction n rule: bitLength.induct)
  case (1 n)
  show ?case
  proof (cases "n div 2 = 0")
    case True
    with "1.prems" have "n = 1" by (simp add: div_eq_0_iff)
    then show ?thesis by (simp add: bitLength.simps)
  next
    case False
    with "1.prems" "1.IH" have ih: "2 ^ (bitLength (n div 2) - 1) \<le> n div 2"
      "n div 2 < 2 ^ bitLength (n div 2)"
      by simp_all
    from False have b: "0 < bitLength (n div 2)"
      by (subst bitLength.simps) simp
    from "1.prems" have n: "bitLength n = Suc (bitLength (n div 2))"
      by (subst bitLength.simps) simp
    from b have "(2 :: nat) ^ bitLength (n div 2) = 2 * 2 ^ (bitLength (n div 2) - 1)"
      by (cases "bitLength (n div 2)") simp_all
    with ih(1) have "2 ^ bitLength (n div 2) \<le> 2 * (n div 2)" by simp
    also have "\<dots> \<le> n" by simp
    finally have lo: "2 ^ (bitLength n - 1) \<le> n" by (simp add: n)
    from ih(2) have "n < 2 * 2 ^ bitLength (n div 2)" by linarith
    then have "n < 2 ^ bitLength n" by (simp add: n)
    with lo show ?thesis by simp
  qed
qed

lemma near_up:
  fixes n A R H m :: nat
  shows "n = A + R \<Longrightarrow> R < 2 * H \<Longrightarrow> H \<le> R \<Longrightarrow> m = A + 2 * H
    \<Longrightarrow> 2 * \<bar>int m - int n\<bar> \<le> int (2 * H)"
  by simp

lemma near_down:
  fixes n A R H m :: nat
  shows "n = A + R \<Longrightarrow> R \<le> H \<Longrightarrow> m = A \<Longrightarrow> 2 * \<bar>int m - int n\<bar> \<le> int (2 * H)"
  by simp

text \<open>Rounding leaves 53 significant bits and moves a number by at most half of the last of
  them.\<close>

lemma roundNat_nearest:
  assumes "2 ^ 53 \<le> n"
  shows "\<exists>q. roundNat n = q * 2 ^ (bitLength n - 53) \<and> 2 ^ 52 \<le> q \<and> q \<le> 2 ^ 53"
    and "2 * \<bar>int (roundNat n) - int n\<bar> \<le> 2 ^ (bitLength n - 53)"
proof -
  let ?e = "bitLength n - 53"
  let ?q = "n div 2 ^ ?e"
  let ?r = "n mod 2 ^ ?e"
  let ?up = "2 ^ (?e - 1) < ?r \<or> (?r = 2 ^ (?e - 1) \<and> odd ?q)"
  from assms have pos: "0 < n" by (simp add: less_le_trans [of 0 "2 ^ 53"])
  note b = bitLength_bounds [OF pos]
  from b assms have "(2 :: nat) ^ 53 < 2 ^ bitLength n" by linarith
  with power_less_imp_less_exp [of 2 53 "bitLength n"] have len: "53 < bitLength n"
    by fastforce
  then have e: "0 < ?e" by simp
  have r: "roundNat n = (if ?up then ?q + 1 else ?q) * 2 ^ ?e"
    using assms by (simp add: roundNat_def Let_def)
  from len have "?e + 53 = bitLength n" and "?e + 52 = bitLength n - 1" by simp_all
  with power_add [of "2 :: nat" ?e 53] power_add [of "2 :: nat" ?e 52]
  have p: "(2 :: nat) ^ bitLength n = 2 ^ ?e * 2 ^ 53"
    "(2 :: nat) ^ (bitLength n - 1) = 2 ^ ?e * 2 ^ 52"
    by simp_all
  from b have "n < 2 ^ ?e * 2 ^ 53" by (simp only: p)
  then have hi: "?q < 2 ^ 53"
    by (metis less_mult_imp_div_less mult.commute)
  from b have "2 ^ ?e * 2 ^ 52 \<le> n" by (simp only: p)
  then have lo: "2 ^ 52 \<le> ?q"
    by (metis div_le_mono nonzero_mult_div_cancel_left power_not_zero zero_neq_numeral)
  show "\<exists>q. roundNat n = q * 2 ^ ?e \<and> 2 ^ 52 \<le> q \<and> q \<le> 2 ^ 53"
  proof (intro exI conjI)
    show "roundNat n = (if ?up then ?q + 1 else ?q) * 2 ^ ?e" by (rule r)
    from lo show "2 ^ 52 \<le> (if ?up then ?q + 1 else ?q)" by simp
    from hi show "(if ?up then ?q + 1 else ?q) \<le> 2 ^ 53" by simp
  qed
  have n: "n = ?q * 2 ^ ?e + ?r" by (rule div_mult_mod_eq [symmetric])
  have rlt: "?r < 2 ^ ?e" by simp
  from e have half: "(2 :: nat) ^ ?e = 2 * 2 ^ (?e - 1)"
    by (cases ?e) simp_all
  from rlt half have rlt': "?r < 2 * 2 ^ (?e - 1)" by simp
  have "2 * \<bar>int (roundNat n) - int n\<bar> \<le> int (2 * 2 ^ (?e - 1))"
  proof (cases ?up)
    case True
    then have h: "2 ^ (?e - 1) \<le> ?r" by auto
    from True r half have m: "roundNat n = ?q * 2 ^ ?e + 2 * 2 ^ (?e - 1)"
      by (simp add: algebra_simps)
    from n rlt' h m show ?thesis by (rule near_up)
  next
    case False
    then have h: "?r \<le> 2 ^ (?e - 1)" by auto
    from False r have m: "roundNat n = ?q * 2 ^ ?e" by simp
    from n h m show ?thesis by (rule near_down)
  qed
  moreover from e have "(2 :: int) ^ ?e = 2 * 2 ^ (?e - 1)"
    by (cases ?e) simp_all
  ultimately show "2 * \<bar>int (roundNat n) - int n\<bar> \<le> 2 ^ ?e" by simp
qed

text \<open>An integer below \<open>2 ^ 53\<close> is the double it is converted to; the integer \<open>2 ^ 53 + 1\<close> is
  rounded to \<open>2 ^ 53\<close>, and \<open>2 ^ 1024\<close> to the infinity.\<close>

lemma toDouble_exact: "0 \<le> i \<Longrightarrow> i < 2 ^ 53 \<Longrightarrow> toDouble i = Finite i"
proof -
  assume i: "0 \<le> i" "i < 2 ^ 53"
  then have "nat \<bar>i\<bar> < 2 ^ 53" by (simp add: nat_less_iff)
  moreover have "(2 :: nat) ^ 53 < 2 ^ 1024" by simp
  ultimately have "roundNat (nat \<bar>i\<bar>) = nat \<bar>i\<bar>" and "\<not> 2 ^ 1024 \<le> nat \<bar>i\<bar>"
    by (simp_all add: roundNat_def)
  with i(1) show ?thesis by (simp add: toDouble_def Let_def)
qed

lemma toDouble_rounds:
  "getIntKey [(''limit'', RStr ''9007199254740993'')] ''limit'' (Finite 100)
     = Finite 9007199254740992
   \<and> toDouble (2 ^ 1024) = Infinity"
  by (simp add: getIntKey_def truthy_def rawToString_def isInt_def isDigit_def natOfDigits_def
      digitVal_def toDouble_def roundNat_def bitLength.simps Let_def)

subsection \<open>Pagination by page\<close>

text \<open>Where the query has a page, \<open>parse\<close> does not read the skip of the query: the skip of
  the descriptor is computed from the page and the limit, in the numbers of the engine.\<close>

lemma skip_from_page:
  assumes "truthy (map_of query ''page'')"
    and "snd (parse toISOString query) = Inr result"
  shows "limit result = getIntKey query ''limit'' (Finite 100)"
    and "skip result =
      (if numGreater (getIntKey query ''page'' (Finite 1)) (Finite 1)
       then numMul (numSub (getIntKey query ''page'' (Finite 1)) (Finite 1)) (limit result)
       else Finite 0)"
proof -
  from assms(2) obtain sel srt flt where
    r: "result = \<lparr>limit = getIntKey query ''limit'' (Finite 100),
              skip = getSkipFromPage query (Finite 1) (getIntKey query ''limit'' (Finite 100)),
              sort' = srt, select = sel, filter' = flt\<rparr>"
    by (auto simp: parse_def Let_def getFilter_def assms(1) split: sum.splits)
  then show "limit result = getIntKey query ''limit'' (Finite 100)" by simp
  with r show "skip result =
      (if numGreater (getIntKey query ''page'' (Finite 1)) (Finite 1)
       then numMul (numSub (getIntKey query ''page'' (Finite 1)) (Finite 1)) (limit result)
       else Finite 0)"
    by (simp add: getSkipFromPage_def Let_def)
qed

text \<open>Every field of the compiled filter has the sanitized text of a key of the query that
  is not reserved as its name; the entry \<^verbatim>\<open>page\<close> of the query is deleted and makes no
  field.\<close>

lemma obj_set_keys: "fst ` set (obj_set obj k v) \<subseteq> insert k (fst ` set obj)"
proof
  fix x
  assume "x \<in> fst ` set (obj_set obj k v)"
  then obtain e where e: "e \<in> set (obj_set obj k v)" and x: "x = fst e" by auto
  from e have "fst e = k \<or> fst e \<in> fst ` set obj"
    unfolding obj_set_def obj_define_def
    by (auto split: if_splits dest!: insertIndex_entries)
  with x show "x \<in> insert k (fst ` set obj)" by auto
qed

lemma getFilterReduce_keys:
  "getFilterReduce classify obj q = Inr flt \<Longrightarrow>
     fst ` set flt \<subseteq> fst ` set obj \<union> (\<lambda>e. cleanString (fst e) keyRegex) ` set q"
proof (induction q arbitrary: obj)
  case Nil
  then show ?case by simp
next
  case (Cons e q)
  obtain key queryValue where e: "e = (key, queryValue)" by (cases e)
  from Cons.prems obtain obj' where
    step: "getFilterReduce classify obj' q = Inr flt"
    and obj': "obj' = obj \<or> (\<exists>v. obj' = obj_set obj (cleanString key keyRegex) v)"
    by (auto simp: e Let_def split: raw.splits sum.splits if_splits)
  from obj' obj_set_keys [of obj "cleanString key keyRegex"]
  have "fst ` set obj' \<subseteq> insert (cleanString key keyRegex) (fst ` set obj)" by auto
  with Cons.IH [OF step] show ?case by (auto simp: e)
qed

lemma filter_fields_are_sanitized_keys:
  assumes "snd (parse toISOString query) = Inr result" and "(k, v) \<in> set (filter' result)"
  shows "\<exists>key \<in> fst ` set query.
     key \<notin> set [''limit'', ''skip'', ''page'', ''select'', ''sort'', ''populate'']
     \<and> cleanString key keyRegex = k"
proof -
  from assms(1) have
    "getFilterReduce (getSimpleFilterValue toISOString) [] (deleteReserved query)
       = Inr (filter' result)"
    by (auto simp: parse_def Let_def getFilter_def split: sum.splits)
  from getFilterReduce_keys [OF this] assms(2)
  have "k \<in> (\<lambda>e. cleanString (fst e) keyRegex) ` set (deleteReserved query)"
    by force
  then obtain e where e: "e \<in> set (deleteReserved query)"
    and k: "cleanString (fst e) keyRegex = k"
    by auto
  from e have "e \<in> set query"
    and "fst e \<notin> set [''limit'', ''skip'', ''page'', ''select'', ''sort'', ''populate'']"
    by (auto simp: deleteReserved_filter)
  with k show ?thesis
    by (intro bexI [of _ "fst e"]) auto
qed

text \<open>
  The claim C8 is that a page above one sets the skip to \<open>(page - 1) * limit\<close>, whatever
  the skip of the query, and that the page never appears anywhere in the output.
  \<open>getFilter\<close> deletes the key \<^verbatim>\<open>page\<close> from the query and sanitizes the keys that are left
  after that: the query \<^verbatim>\<open>{ page: "3", "pa-ge": "x" }\<close> has the skip of its page and a field
  \<^verbatim>\<open>page\<close> in its filter.
\<close>

theorem page_appears_in_the_filter:
  "\<forall>toISOString.
     parse toISOString [(''page'', RStr ''3''), (''pa-ge'', RStr ''x'')]
       = ([(''pa-ge'', RStr ''x'')],
          Inr \<lparr>limit = Finite 100, skip = Finite 200, sort' = [], select = [],
               filter' = [(''page'', JStr ''x'')]\<rparr>)"
  by (simp add: classify_eval parse_eval)

text \<open>
  C8, amended. Where \<open>getIntKey\<close> reads a page above one from the query, the descriptor
  that \<open>parse\<close> returns has the skip \<open>(page - 1) * limit\<close> in the numbers of the engine,
  whatever the query has under \<^verbatim>\<open>skip\<close>, and this is the exact product
  while the page and the product are below \<open>2 ^ 53\<close>. The descriptor has no field for the
  page, and the entry \<^verbatim>\<open>page\<close> of the query makes no field of the filter: every field of the
  filter has the sanitized text of a key of the query other than the six reserved keys as
  its name.
\<close>

theorem page_overrides_skip:
  assumes "numGreater (getIntKey query ''page'' (Finite 1)) (Finite 1)"
    and "snd (parse toISOString query) = Inr result"
  shows "limit result = getIntKey query ''limit'' (Finite 100)
    \<and> skip result
        = numMul (numSub (getIntKey query ''page'' (Finite 1)) (Finite 1)) (limit result)
    \<and> (\<forall>p l. getIntKey query ''page'' (Finite 1) = Finite p \<and> p < 2 ^ 53
           \<and> limit result = Finite l \<and> 0 \<le> l \<and> (p - 1) * l < 2 ^ 53
         \<longrightarrow> skip result = Finite ((p - 1) * l))
    \<and> (\<forall>(k, v) \<in> set (filter' result).
         \<exists>key \<in> fst ` set query.
           key \<notin> set [''limit'', ''skip'', ''page'', ''select'', ''sort'', ''populate'']
           \<and> cleanString key keyRegex = k)"
proof -
  let ?page = "getIntKey query ''page'' (Finite 1)"
  have t: "truthy (map_of query ''page'')"
  proof (rule ccontr)
    assume "\<not> truthy (map_of query ''page'')"
    then have "?page = Finite 1" by (simp add: getIntKey_def)
    with assms(1) show False by simp
  qed
  note s = skip_from_page [OF t assms(2)]
  from s(2) assms(1) have skip: "skip result = numMul (numSub ?page (Finite 1)) (limit result)"
    by simp
  have exact: "skip result = Finite ((p - 1) * l)"
    if "?page = Finite p" "p < 2 ^ 53" "limit result = Finite l" "0 \<le> l"
      "(p - 1) * l < 2 ^ 53" for p l
  proof -
    from assms(1) that(1) have one: "1 < p" by simp
    with that(2) have "toDouble (p - 1) = Finite (p - 1)"
      by (intro toDouble_exact) simp_all
    moreover from one that(4) have "0 \<le> (p - 1) * l" by simp
    with that(5) have "toDouble ((p - 1) * l) = Finite ((p - 1) * l)"
      by (intro toDouble_exact)
    ultimately show ?thesis using skip that(1,3) by simp
  qed
  have fields: "\<exists>key \<in> fst ` set query.
           key \<notin> set [''limit'', ''skip'', ''page'', ''select'', ''sort'', ''populate'']
           \<and> cleanString key keyRegex = k"
    if "(k, v) \<in> set (filter' result)" for k v
    using that by (rule filter_fields_are_sanitized_keys [OF assms(2)])
  from s(1) skip exact fields show ?thesis by blast
qed

theorem page_overrides_skip_witness:
  "numGreater (getIntKey [(''limit'', RStr ''10''), (''skip'', RStr ''7''), (''page'', RStr ''3''),
       (''name'', RStr ''x'')] ''page'' (Finite 1)) (Finite 1)
   \<and> snd (parse (\<lambda>s. None) [(''limit'', RStr ''10''), (''skip'', RStr ''7''),
       (''page'', RStr ''3''), (''name'', RStr ''x'')])
     = Inr \<lparr>limit = Finite 10, skip = Finite 20, sort' = [], select = [],
            filter' = [(''name'', JStr ''x'')]\<rparr>
   \<and> getIntKey [(''limit'', RStr ''10''), (''skip'', RStr ''7''), (''page'', RStr ''3''),
       (''name'', RStr ''x'')] ''page'' (Finite 1) = Finite 3
   \<and> (3 :: int) < 2 ^ 53 \<and> (0 :: int) \<le> 10 \<and> ((3 :: int) - 1) * 10 < 2 ^ 53
   \<and> skip \<lparr>limit = Finite 10, skip = Finite 20, sort' = [], select = [],
            filter' = [(''name'', JStr ''x'')]\<rparr> = Finite ((3 - 1) * 10)
   \<and> cleanString ''name'' keyRegex = ''name''"
proof -
  let ?q = "[(''limit'', RStr ''10''), (''skip'', RStr ''7''), (''page'', RStr ''3''),
       (''name'', RStr ''x'')]"
  let ?r = "\<lparr>limit = Finite 10, skip = Finite 20, sort' = [], select = [],
            filter' = [(''name'', JStr ''x'')]\<rparr>"
  have 0: "getIntKey ?q ''page'' (Finite 1) = Finite 3"
    by (simp add: parse_eval isDigit_def natOfDigits_def digitVal_def)
  then have 1: "numGreater (getIntKey ?q ''page'' (Finite 1)) (Finite 1)" by simp
  have 2: "snd (parse (\<lambda>s. None) ?q) = Inr ?r"
    by (simp add: classify_eval parse_eval)
  have 3: "cleanString ''name'' keyRegex = ''name''"
    by (simp add: cleanString_def keyRegex_def isDigit_def)
  from page_overrides_skip [OF 1 2] 0 1 2 3 show ?thesis by simp
qed

subsection \<open>Objects as mappings\<close>

lemma map_of_insertIndex:
  "map_of (insertIndex k v obj) x = (if x = k then Some v else map_of obj x)"
  by (induction obj) auto

lemma map_of_replace:
  "map_of (map (\<lambda>(k', v'). if k' = k then (k', v) else (k', v')) obj) x
   = (if x = k then map_option (\<lambda>w. v) (map_of obj k) else map_of obj x)"
  by (induction obj) auto

lemma map_of_obj_set:
  assumes "k \<noteq> ''__proto__''"
  shows "map_of (obj_set obj k v) x = (if x = k then Some v else map_of obj x)"
proof (cases "map_of obj k")
  case None
  with assms show ?thesis
    by (auto simp: obj_set_def obj_define_def map_of_insertIndex map_add_def split: option.splits)
next
  case (Some w)
  with assms show ?thesis by (simp add: obj_set_def obj_define_def map_of_replace)
qed

lemma map_of_assignAll:
  assumes "''__proto__'' \<notin> fst ` set kvs"
  shows "map_of (assignAll acc kvs) x =
     (case map_of (rev kvs) x of None \<Rightarrow> map_of acc x | Some y \<Rightarrow> Some y)"
  using assms
proof (induction kvs arbitrary: acc)
  case Nil
  show ?case by (simp add: assignAll_def)
next
  case (Cons a kvs)
  obtain k v where a: "a = (k, v)" by (cases a)
  from Cons.prems have k: "k \<noteq> ''__proto__''" and kvs: "''__proto__'' \<notin> fst ` set kvs"
    by (auto simp: a)
  have "assignAll acc (a # kvs) = assignAll (obj_set acc k v) kvs"
    by (simp add: assignAll_def a)
  then show ?case
    by (simp add: Cons.IH [OF kvs] map_of_obj_set [OF k] a map_add_def split: option.splits)
qed

subsection \<open>Decimal numerals are read back\<close>

lemma digitVal_digitChar: "d < 10 \<Longrightarrow> digitVal (digitChar d) = d"
proof -
  have "list_all (\<lambda>d. digitVal (digitChar d) = d) [0..<10]"
    by (simp add: upt_rec digitVal_def digitChar_def)
  moreover assume "d < 10"
  ultimately show ?thesis by (simp add: list_all_iff)
qed

lemma natOfDigits_snoc: "natOfDigits (s @ [c]) = 10 * natOfDigits s + digitVal c"
  by (simp add: natOfDigits_def)

lemma natOfDigits_decimal: "natOfDigits (decimal n) = n"
proof (induction n rule: decimal.induct)
  case (1 n)
  show ?case
  proof (cases "n < 10")
    case True
    then show ?thesis
      by (subst decimal.simps) (simp add: natOfDigits_def digitVal_digitChar)
  next
    case False
    with 1 have "natOfDigits (decimal (n div 10)) = n div 10" by simp
    with False show ?thesis
      by (subst decimal.simps) (simp add: natOfDigits_snoc digitVal_digitChar)
  qed
qed

lemma decimal_eq: "decimal i = decimal j \<longleftrightarrow> i = j"
  by (metis natOfDigits_decimal)

lemma isDigit_digitChar: "d < 10 \<Longrightarrow> isDigit (digitChar d)"
proof -
  have "list_all (\<lambda>d. isDigit (digitChar d)) [0..<10]"
    by (simp add: upt_rec isDigit_def digitChar_def)
  moreover assume "d < 10"
  ultimately show ?thesis by (simp add: list_all_iff)
qed

lemma digits_decimal: "list_all isDigit (decimal n)"
proof (induction n rule: decimal.induct)
  case (1 n)
  show ?case
  proof (cases "n < 10")
    case True
    then show ?thesis by (subst decimal.simps) (simp add: isDigit_digitChar)
  next
    case False
    with 1 have "list_all isDigit (decimal (n div 10))" by simp
    with False show ?thesis by (subst decimal.simps) (simp add: isDigit_digitChar)
  qed
qed

lemma decimal_not_proto: "decimal n \<noteq> ''__proto__''"
proof
  assume "decimal n = ''__proto__''"
  with digits_decimal [of n] show False by (simp add: isDigit_def)
qed

text \<open>The properties of a string: its characters under their positions.\<close>

definition charEntries :: "string \<Rightarrow> (string \<times> jsval) list" where
  "charEntries s = map (\<lambda>i. (decimal i, JStr [s ! i])) [0..<length s]"

lemma map_of_positions:
  "map_of (map (\<lambda>j. (decimal j, JStr [s ! j])) js) (decimal i)
     = (if i \<in> set js then Some (JStr [s ! i]) else None)"
  by (induction js) (auto simp: decimal_eq)

lemma map_of_charEntries:
  "map_of (rev (charEntries s)) (decimal i) = (if i < length s then Some (JStr [s ! i]) else None)"
  using map_of_positions [of s "rev [0..<length s]" i]
  by (simp add: charEntries_def rev_map)

lemma no_proto_charEntries: "''__proto__'' \<notin> fst ` set (charEntries t)"
proof
  assume "''__proto__'' \<in> fst ` set (charEntries t)"
  then obtain n where "decimal n = ''__proto__''"
    by (auto simp: charEntries_def)
  with decimal_not_proto show False by blast
qed

lemma map_of_charEntries_fold:
  "map_of (foldl (\<lambda>acc t. assignAll acc (charEntries t)) acc ts) (decimal i)
   = (case List.filter (\<lambda>t. i < length t) ts of
        [] \<Rightarrow> map_of acc (decimal i)
      | u # us \<Rightarrow> Some (JStr [last (u # us) ! i]))"
proof (induction ts arbitrary: acc)
  case Nil
  show ?case by simp
next
  case (Cons t ts)
  have "map_of (assignAll acc (charEntries t)) (decimal i)
      = (if i < length t then Some (JStr [t ! i]) else map_of acc (decimal i))"
    by (simp add: map_of_assignAll [OF no_proto_charEntries] map_of_charEntries)
  then show ?case
    by (simp add: Cons.IH split: list.splits)
qed

subsection \<open>Plain strings under a repeated key\<close>

lemma mapE_results: "(\<And>x. x \<in> set xs \<Longrightarrow> f x = Inr (g x)) \<Longrightarrow> mapE f xs = Inr (map g xs)"
  by (induction xs) simp_all

lemma mergeOperators_strings:
  "mergeOperators acc (map JStr ts) = Inr (foldl (\<lambda>acc t. assignAll acc (charEntries t)) acc ts)"
  by (induction ts arbitrary: acc) (simp_all add: charEntries_def)

text \<open>
  C10. Where every token of a repeated key is classified to itself, a plain string, the
  merge enumerates the properties of each string: the value compiled under the key is an
  object that maps the decimal positions to single characters, the character at a position
  being that of the last token long enough to have one.
\<close>

theorem plain_strings_merge_by_position:
  assumes "\<forall>t \<in> set ts. getSimpleFilterValue toISOString t = Inr (JStr t)"
  shows "getImplicitANDValue (getSimpleFilterValue toISOString) ts
      = Inr (foldl (\<lambda>acc t. assignAll acc (charEntries t)) [] ts)
    \<and> getFilterReduce (getSimpleFilterValue toISOString) obj ((key, RArr ts) # rest)
      = getFilterReduce (getSimpleFilterValue toISOString)
          (obj_set obj (cleanString key keyRegex)
             (JObj (foldl (\<lambda>acc t. assignAll acc (charEntries t)) [] ts))) rest
    \<and> map_of (foldl (\<lambda>acc t. assignAll acc (charEntries t)) [] ts) (decimal i)
      = (case List.filter (\<lambda>t. i < length t) ts of
           [] \<Rightarrow> None
         | u # us \<Rightarrow> Some (JStr [last (u # us) ! i]))"
proof -
  from assms have "mapE (getSimpleFilterValue toISOString) ts = Inr (map JStr ts)"
    by (intro mapE_results) simp
  then have 1: "getImplicitANDValue (getSimpleFilterValue toISOString) ts
      = Inr (foldl (\<lambda>acc t. assignAll acc (charEntries t)) [] ts)"
    by (simp add: getImplicitANDValue_def getMapOfOperatorsWithValues_def mergeOperators_strings)
  then have 2: "getFilterReduce (getSimpleFilterValue toISOString) obj ((key, RArr ts) # rest)
      = getFilterReduce (getSimpleFilterValue toISOString)
          (obj_set obj (cleanString key keyRegex)
             (JObj (foldl (\<lambda>acc t. assignAll acc (charEntries t)) [] ts))) rest"
    by (simp add: Let_def)
  show ?thesis
    using 1 2 map_of_charEntries_fold [of "[]" ts i] by (simp split: list.splits)
qed

theorem plain_strings_merge_by_position_witness:
  "getSimpleFilterValue (\<lambda>s. None) ''ab'' = Inr (JStr ''ab'')
   \<and> getImplicitANDValue (getSimpleFilterValue (\<lambda>s. None)) [''ab'']
       = Inr [(''0'', JStr ''a''), (''1'', JStr ''b'')]
   \<and> snd (getFilter (getSimpleFilterValue (\<lambda>s. None)) [(''key'', RArr [''ab''])])
       = Inr [(''key'', JObj [(''0'', JStr ''a''), (''1'', JStr ''b'')])]"
proof -
  have h: "\<forall>t \<in> set [''ab'']. getSimpleFilterValue (\<lambda>s. None) t = Inr (JStr t)"
    by (simp add: classify_eval)
  have e: "assignAll [] (charEntries ''ab'') = [(''0'', JStr ''a''), (''1'', JStr ''b'')]"
    by (simp add: charEntries_def classify_eval)
  from plain_strings_merge_by_position [OF h, of "[]" "''key''" "[]" 0] h
  show ?thesis
    by (simp add: e getFilter_def deleteReserved_def obj_delete_def Let_def cleanString_def
        keyRegex_def isDigit_def obj_set_def obj_define_def isArrayIndex_def)
qed

subsection \<open>Termination of the classification\<close>

text \<open>
  C9. \<open>getSimpleFilterValue\<close> is defined above by recursion on the length of its token, which
  is what makes it a total function. The theorem collects what that definition rests on:
  the tokens of the sub-query of an element match, the operand of a logical or of a
  comparison tag, the pieces between bars and the pieces of a brace-concatenated token are
  all strictly shorter than the token they are taken from; and the empty token, from which
  nothing can be taken, is classified to \<^verbatim>\<open>null\<close> at once.
\<close>

theorem recursive_calls_on_shorter_tokens:
  "(isElementMatchFilter s \<longrightarrow>
      (\<forall>x \<in> set (tokensOf (deleteReserved
                 (constructElemMatchFilter (substring1 s (indexOf s CHR ''}'' + 1))))).
         length x < length s))
   \<and> (isLogicalOperator s \<longrightarrow> length (substring1 s (indexOf s CHR ''}'' + 1)) < length s)
   \<and> (isComparisonFilter s \<longrightarrow> length (substring1 s (indexOf s CHR ''}'' + 1)) < length s)
   \<and> (isORFilter s \<longrightarrow> (\<forall>x \<in> set (splitChar CHR ''|'' s). length x < length s))
   \<and> (isANDFilter s \<longrightarrow> (\<forall>x \<in> set (queryAndValues s). length x < length s))
   \<and> getSimpleFilterValue toISOString [] = Inr JNull"
proof (intro conjI impI ballI)
  fix x
  assume "isElementMatchFilter s"
    and "x \<in> set (tokensOf (deleteReserved
           (constructElemMatchFilter (substring1 s (indexOf s CHR ''}'' + 1)))))"
  with elemMatch_tokens_le [of x "substring1 s (indexOf s CHR ''}'' + 1)"]
    operand_of_tag_shorter [of s]
  show "length x < length s" by simp
next
  assume "isLogicalOperator s"
  then show "length (substring1 s (indexOf s CHR ''}'' + 1)) < length s"
    by (simp add: operand_of_tag_shorter)
next
  assume "isComparisonFilter s"
  then show "length (substring1 s (indexOf s CHR ''}'' + 1)) < length s"
    by (simp add: operand_of_tag_shorter)
next
  fix x
  assume "isORFilter s" and "x \<in> set (splitChar CHR ''|'' s)"
  then show "length x < length s"
    using splitChar_shorter [OF isORFilter_has_bar, of s x] by simp
next
  fix x
  assume "isANDFilter s" and "x \<in> set (queryAndValues s)"
  then show "length x < length s"
    by (rule queryAndValues_shorter)
next
  show "getSimpleFilterValue toISOString [] = Inr JNull"
    by (simp add: getSimpleFilterValue.simps)
qed

theorem recursive_calls_on_shorter_tokens_witness:
  "isElementMatchFilter ''{elemMatch}a=1#b=22''
   \<and> tokensOf (deleteReserved (constructElemMatchFilter
        (substring1 ''{elemMatch}a=1#b=22'' (indexOf ''{elemMatch}a=1#b=22'' CHR ''}'' + 1))))
       = [''1'', ''22'']
   \<and> length ''22'' < length ''{elemMatch}a=1#b=22''
   \<and> isLogicalOperator ''{not}x''
   \<and> length (substring1 ''{not}x'' (indexOf ''{not}x'' CHR ''}'' + 1)) < length ''{not}x''
   \<and> isComparisonFilter ''{gt}5''
   \<and> length (substring1 ''{gt}5'' (indexOf ''{gt}5'' CHR ''}'' + 1)) < length ''{gt}5''
   \<and> isORFilter ''a|b''
   \<and> splitChar CHR ''|'' ''a|b'' = [''a'', ''b'']
   \<and> length ''a'' < length ''a|b''
   \<and> isANDFilter ''{gt}5{lt}10''
   \<and> queryAndValues ''{gt}5{lt}10'' = [''{gt}5'', ''{lt}10'']
   \<and> length ''{lt}10'' < length ''{gt}5{lt}10''"
  using recursive_calls_on_shorter_tokens [of "''{elemMatch}a=1#b=22''" "\<lambda>s. None"]
    recursive_calls_on_shorter_tokens [of "''{not}x''" "\<lambda>s. None"]
    recursive_calls_on_shorter_tokens [of "''{gt}5''" "\<lambda>s. None"]
    recursive_calls_on_shorter_tokens [of "''a|b''" "\<lambda>s. None"]
    recursive_calls_on_shorter_tokens [of "''{gt}5{lt}10''" "\<lambda>s. None"]
  by (simp add: classify_eval constructElemMatchFilter_def URLSearchParams_def formDecode_def)

subsection \<open>Brace-concatenated groups\<close>

text \<open>A group \<^verbatim>\<open>{op}value\<close>, given by its operator and its value.\<close>

definition opGroup :: "string \<times> string \<Rightarrow> string" where
  "opGroup g = ''{'' @ fst g @ ''}'' @ snd g"

definition comparisonTags :: "string list" where
  "comparisonTags = [''eq'', ''gt'', ''gte'', ''in'', ''lt'', ''lte'', ''ne'', ''nin'']"

lemma splitChar_append_free:
  assumes "c \<notin> set b"
  shows "splitChar c (b @ ys) = (b @ hd (splitChar c ys)) # tl (splitChar c ys)"
  using assms
proof (induction b)
  case Nil
  then show ?case using splitChar_not_Nil [of c ys] by simp
next
  case (Cons x b)
  then show ?case by auto
qed

lemma replaceChar_append:
  "replaceChar c r (a @ b) = replaceChar c r a @ replaceChar c r b"
  by (simp add: replaceChar_def)

lemma replaceChar_free: "c \<notin> set s \<Longrightarrow> replaceChar c r s = s"
  by (induction s) (auto simp: replaceChar_def)

lemma tag_chars:
  assumes "op \<in> set comparisonTags"
  shows "CHR ''{'' \<notin> set op \<and> CHR '','' \<notin> set op \<and> CHR ''|'' \<notin> set op \<and> CHR ''}'' \<notin> set op"
  using assms by (auto simp: comparisonTags_def)

lemma groups_brace_pieces:
  assumes "\<And>g. g \<in> set gs \<Longrightarrow> CHR ''{'' \<notin> set (fst g) \<and> CHR ''{'' \<notin> set (snd g)"
  shows "splitChar CHR ''{'' (concat (map opGroup gs)) = [] # map (\<lambda>g. fst g @ ''}'' @ snd g) gs"
  using assms
proof (induction gs)
  case Nil
  show ?case by simp
next
  case (Cons g gs)
  have free: "CHR ''{'' \<notin> set (fst g @ ''}'' @ snd g)"
    using Cons.prems [of g] by simp
  have "splitChar CHR ''{'' (concat (map opGroup gs)) = [] # map (\<lambda>g. fst g @ ''}'' @ snd g) gs"
    by (rule Cons.IH) (simp add: Cons.prems)
  with splitChar_append_free [OF free, of "concat (map opGroup gs)"]
  show ?case by (simp add: opGroup_def [of g])
qed

lemma groups_comma_pieces:
  assumes "\<And>g. g \<in> set gs \<Longrightarrow> CHR ''{'' \<notin> set (fst g) \<and> CHR ''{'' \<notin> set (snd g)
      \<and> CHR '','' \<notin> set (fst g) \<and> CHR '','' \<notin> set (snd g)"
  shows "splitChar CHR '','' (replaceChar CHR ''{'' '',{'' (concat (map opGroup gs)))
      = [] # map opGroup gs"
  using assms
proof (induction gs)
  case Nil
  show ?case by (simp add: replaceChar_def)
next
  case (Cons g gs)
  let ?b = "fst g @ ''}'' @ snd g"
  have b: "CHR ''{'' \<notin> set ?b" "CHR '','' \<notin> set (CHR ''{'' # ?b)"
    using Cons.prems [of g] by simp_all
  have ih: "splitChar CHR '','' (replaceChar CHR ''{'' '',{'' (concat (map opGroup gs)))
      = [] # map opGroup gs"
    by (rule Cons.IH) (simp add: Cons.prems)
  have "replaceChar CHR ''{'' '',{'' (concat (map opGroup (g # gs)))
      = CHR '','' # (CHR ''{'' # ?b) @ replaceChar CHR ''{'' '',{'' (concat (map opGroup gs))"
    using replaceChar_free [OF b(1), of "'',{''"]
    by (simp add: opGroup_def [of g] replaceChar_append replaceChar_Cons)
  then show ?case
    using splitChar_append_free [OF b(2), of "replaceChar CHR ''{'' '',{'' (concat (map opGroup gs))"] ih
    by (simp add: opGroup_def [of g])
qed

lemmas group_eval = opGroup_def isJson_def JSON_parse_def isJsonWs_def isDigit_def
  isElementMatchFilter_def isLogicalOperator_def logical_def isORFilter_def
  isANDFilter_def isComparisonFilter_def Let_def substring1_def substring2_def clampIndex_def

lemma classify_group:
  assumes "op \<in> set comparisonTags" and "v \<noteq> []"
    and "CHR ''{'' \<notin> set v" and "CHR ''|'' \<notin> set v"
  shows "getSimpleFilterValue toISOString (opGroup (op, v)) =
     (case getSimpleFilterValue toISOString v of
        Inl e \<Rightarrow> Inl e
      | Inr x \<Rightarrow> Inr (JObj [(''$'' @ op, x)]))"
proof -
  let ?P = "\<lambda>op. getSimpleFilterValue toISOString (opGroup (op, v)) =
     (case getSimpleFilterValue toISOString v of
        Inl e \<Rightarrow> Inl e
      | Inr x \<Rightarrow> Inr (JObj [(''$'' @ op, x)]))"
  note v = assms(2) indexOf_notin [OF assms(4)] splitChar_notin [OF assms(3)]
  have 1: "?P ''eq''"
    by (subst getSimpleFilterValue.simps [of toISOString "opGroup (''eq'', v)"])
      (simp add: group_eval v split: sum.splits)
  have 2: "?P ''gt''"
    by (subst getSimpleFilterValue.simps [of toISOString "opGroup (''gt'', v)"])
      (simp add: group_eval v split: sum.splits)
  have 3: "?P ''gte''"
    by (subst getSimpleFilterValue.simps [of toISOString "opGroup (''gte'', v)"])
      (simp add: group_eval v split: sum.splits)
  have 4: "?P ''in''"
    by (subst getSimpleFilterValue.simps [of toISOString "opGroup (''in'', v)"])
      (simp add: group_eval v split: sum.splits)
  have 5: "?P ''lt''"
    by (subst getSimpleFilterValue.simps [of toISOString "opGroup (''lt'', v)"])
      (simp add: group_eval v split: sum.splits)
  have 6: "?P ''lte''"
    by (subst getSimpleFilterValue.simps [of toISOString "opGroup (''lte'', v)"])
      (simp add: group_eval v split: sum.splits)
  have 7: "?P ''ne''"
    by (subst getSimpleFilterValue.simps [of toISOString "opGroup (''ne'', v)"])
      (simp add: group_eval v split: sum.splits)
  have 8: "?P ''nin''"
    by (subst getSimpleFilterValue.simps [of toISOString "opGroup (''nin'', v)"])
      (simp add: group_eval v split: sum.splits)
  from assms(1) have "op = ''eq'' \<or> op = ''gt'' \<or> op = ''gte'' \<or> op = ''in''
      \<or> op = ''lt'' \<or> op = ''lte'' \<or> op = ''ne'' \<or> op = ''nin''"
    by (simp add: comparisonTags_def)
  then show ?thesis
  proof (elim disjE)
    assume "op = ''eq''" with 1 show ?thesis by (simp only:)
  next
    assume "op = ''gt''" with 2 show ?thesis by (simp only:)
  next
    assume "op = ''gte''" with 3 show ?thesis by (simp only:)
  next
    assume "op = ''in''" with 4 show ?thesis by (simp only:)
  next
    assume "op = ''lt''" with 5 show ?thesis by (simp only:)
  next
    assume "op = ''lte''" with 6 show ?thesis by (simp only:)
  next
    assume "op = ''ne''" with 7 show ?thesis by (simp only:)
  next
    assume "op = ''nin''" with 8 show ?thesis by (simp only:)
  qed
qed

lemma mapE_groups:
  assumes "\<And>g. g \<in> set gs \<Longrightarrow> fst g \<in> set comparisonTags \<and> snd g \<noteq> []
      \<and> CHR ''{'' \<notin> set (snd g) \<and> CHR ''|'' \<notin> set (snd g)"
  shows "mapE (getSimpleFilterValue toISOString) (map opGroup gs) =
     (case mapE (getSimpleFilterValue toISOString) (map snd gs) of
        Inl e \<Rightarrow> Inl e
      | Inr xs \<Rightarrow> Inr (map (\<lambda>e. JObj [e]) (zip (map (\<lambda>g. ''$'' @ fst g) gs) xs)))"
  using assms
proof (induction gs)
  case Nil
  show ?case by simp
next
  case (Cons g gs)
  have g: "getSimpleFilterValue toISOString (opGroup g) =
     (case getSimpleFilterValue toISOString (snd g) of
        Inl e \<Rightarrow> Inl e
      | Inr x \<Rightarrow> Inr (JObj [(''$'' @ fst g, x)]))"
    using classify_group [of "fst g" "snd g" toISOString] Cons.prems [of g] by simp
  have "mapE (getSimpleFilterValue toISOString) (map opGroup gs) =
     (case mapE (getSimpleFilterValue toISOString) (map snd gs) of
        Inl e \<Rightarrow> Inl e
      | Inr xs \<Rightarrow> Inr (map (\<lambda>e. JObj [e]) (zip (map (\<lambda>g. ''$'' @ fst g) gs) xs)))"
    by (rule Cons.IH) (simp add: Cons.prems)
  with g show ?case by (simp split: sum.splits)
qed

lemma assignAll_Cons: "assignAll acc (a # kvs) = assignAll (assignAll acc [a]) kvs"
  by (simp add: assignAll_def)

lemma mergeOperators_single:
  "mergeOperators acc (map (\<lambda>e. JObj [e]) kvs) = Inr (assignAll acc kvs)"
proof (induction kvs arbitrary: acc)
  case Nil
  show ?case by (simp add: assignAll_def)
next
  case (Cons a kvs)
  show ?case by (simp add: Cons.IH assignAll_Cons [of acc a kvs])
qed


lemma tagged_token:
  assumes "op \<in> set comparisonTags"
  shows "\<not> isJson (''{'' @ op @ ''}'' @ r) \<and> \<not> isElementMatchFilter (''{'' @ op @ ''}'' @ r)
    \<and> \<not> isLogicalOperator (''{'' @ op @ ''}'' @ r)"
proof -
  from assms have "op = ''eq'' \<or> op = ''gt'' \<or> op = ''gte'' \<or> op = ''in''
      \<or> op = ''lt'' \<or> op = ''lte'' \<or> op = ''ne'' \<or> op = ''nin''"
    by (simp add: comparisonTags_def)
  then show ?thesis
    by (elim disjE)
      (simp_all add: isJson_def JSON_parse_def isJsonWs_def isDigit_def isElementMatchFilter_def
        isLogicalOperator_def logical_def)
qed

text \<open>
  A token of two or more groups \<^verbatim>\<open>{op}value\<close>, each with a comparison tag and a value that
  is not empty and has no brace, comma or bar, is cut into exactly its groups; its
  classification is one object, without a \<^verbatim>\<open>$and\<close> around it, that has been assigned, group
  after group, the operator of the group with the classification of its value, so that the
  later of two groups with the same operator is the one that stays.
\<close>

lemma groups_merge_into_one_object:
  assumes "2 \<le> length gs"
    and "\<forall>g \<in> set gs. fst g \<in> set comparisonTags \<and> snd g \<noteq> [] \<and> CHR ''{'' \<notin> set (snd g)
           \<and> CHR '','' \<notin> set (snd g) \<and> CHR ''|'' \<notin> set (snd g)"
  shows "queryAndValues (concat (map opGroup gs)) = map opGroup gs
    \<and> getSimpleFilterValue toISOString (concat (map opGroup gs)) =
       (case mapE (getSimpleFilterValue toISOString) (map snd gs) of
          Inl e \<Rightarrow> Inl e
        | Inr xs \<Rightarrow> Inr (JObj (assignAll [] (zip (map (\<lambda>g. ''$'' @ fst g) gs) xs))))
    \<and> map_of (assignAll [] (zip (map (\<lambda>g. ''$'' @ fst g) gs) xs)) k
       = map_of (rev (zip (map (\<lambda>g. ''$'' @ fst g) gs) xs)) k"
proof -
  let ?tok = "concat (map opGroup gs)"
  from assms(1) obtain g gs' where gs: "gs = g # gs'" by (cases gs) auto
  have tok: "?tok = ''{'' @ fst g @ ''}'' @ (snd g @ concat (map opGroup gs'))"
    by (simp add: gs opGroup_def [of g])
  have g: "fst g \<in> set comparisonTags" using assms(2) by (simp add: gs)
  have free: "\<And>h. h \<in> set gs \<Longrightarrow> CHR ''{'' \<notin> set (fst h) \<and> CHR ''{'' \<notin> set (snd h)
      \<and> CHR '','' \<notin> set (fst h) \<and> CHR '','' \<notin> set (snd h)"
    using assms(2) tag_chars by blast
  have nonempty: "tok \<noteq> []" if "tok = ?tok" for tok using that tok by simp
  have nj: "\<not> isJson ?tok" "\<not> isElementMatchFilter ?tok" "\<not> isLogicalOperator ?tok"
    using tagged_token [OF g, of "snd g @ concat (map opGroup gs')"]
    by (simp_all only: tok simp_thms)
  have "CHR ''|'' \<notin> set (opGroup h)" if "h \<in> set gs" for h
    using that assms(2) tag_chars [of "fst h"] by (simp add: opGroup_def)
  then have "CHR ''|'' \<notin> set ?tok" by simp
  then have nor: "\<not> isORFilter ?tok" by (simp add: isORFilter_def indexOf_notin)
  have "CHR ''{'' \<in> set ?tok" by (simp add: gs opGroup_def [of g])
  then have brace: "indexOf ?tok CHR ''{'' \<noteq> -1"
    using indexOf_ge [of ?tok "CHR ''{''"] by auto
  have "splitChar CHR ''{'' ?tok = [] # map (\<lambda>g. fst g @ ''}'' @ snd g) gs"
    by (rule groups_brace_pieces) (simp add: free)
  then have "List.filter (\<lambda>val. val \<noteq> []) (splitChar CHR ''{'' ?tok)
      = map (\<lambda>g. fst g @ ''}'' @ snd g) gs"
    by (simp add: filter_map comp_def)
  with assms(1) brace have "and": "isANDFilter ?tok"
    by (simp add: isANDFilter_def)
  have "splitChar CHR '','' (replaceChar CHR ''{'' '',{'' ?tok) = [] # map opGroup gs"
    by (rule groups_comma_pieces) (simp add: free)
  moreover have "List.filter (\<lambda>val. val \<noteq> []) (map opGroup gs) = map opGroup gs"
    by (simp add: filter_map comp_def opGroup_def)
  ultimately have qav: "queryAndValues ?tok = map opGroup gs"
    by (simp add: queryAndValues_def)
  have m: "mapE (getSimpleFilterValue toISOString) (map opGroup gs) =
     (case mapE (getSimpleFilterValue toISOString) (map snd gs) of
        Inl e \<Rightarrow> Inl e
      | Inr xs \<Rightarrow> Inr (map (\<lambda>e. JObj [e]) (zip (map (\<lambda>g. ''$'' @ fst g) gs) xs)))"
    by (rule mapE_groups) (simp add: assms(2))
  have "getSimpleFilterValue toISOString ?tok =
       (case getImplicitANDValue (getSimpleFilterValue toISOString) (map opGroup gs) of
          Inl e \<Rightarrow> Inl e
        | Inr merged \<Rightarrow> Inr (JObj merged))"
    by (subst getSimpleFilterValue.simps [of toISOString ?tok])
      (simp only: nj nor "and" qav nonempty [OF refl] if_True if_False)
  then have "getSimpleFilterValue toISOString ?tok =
       (case mapE (getSimpleFilterValue toISOString) (map snd gs) of
          Inl e \<Rightarrow> Inl e
        | Inr xs \<Rightarrow> Inr (JObj (assignAll [] (zip (map (\<lambda>g. ''$'' @ fst g) gs) xs))))"
    by (simp add: getImplicitANDValue_def getMapOfOperatorsWithValues_def m mergeOperators_single
        split: sum.splits)
  moreover have "''__proto__'' \<notin> fst ` set (zip (map (\<lambda>g. ''$'' @ fst g) gs) xs)"
    by (auto dest!: set_zip_leftD)
  then have "map_of (assignAll [] (zip (map (\<lambda>g. ''$'' @ fst g) gs) xs)) k
       = map_of (rev (zip (map (\<lambda>g. ''$'' @ fst g) gs) xs)) k"
    by (simp add: map_of_assignAll split: option.splits)
  ultimately show ?thesis using qav by simp
qed

lemma groups_merge_into_one_object_example:
  "2 \<le> length [(''gt'', ''5''), (''lt'', ''10'')]
   \<and> set (map fst [(''gt'', ''5''), (''lt'', ''10'')]) \<subseteq> set comparisonTags
   \<and> queryAndValues ''{gt}5{lt}10'' = [''{gt}5'', ''{lt}10'']
   \<and> getSimpleFilterValue (\<lambda>s. None) ''{gt}5{lt}10''
       = Inr (JObj [(''$gt'', JNum 5), (''$lt'', JNum 10)])
   \<and> getSimpleFilterValue (\<lambda>s. None) ''{gt}5{gt}7'' = Inr (JObj [(''$gt'', JNum 7)])"
proof -
  have 1: "2 \<le> length [(''gt'', ''5''), (''lt'', ''10'')]" by simp
  have 2: "\<forall>g \<in> set [(''gt'', ''5''), (''lt'', ''10'')].
      fst g \<in> set comparisonTags \<and> snd g \<noteq> [] \<and> CHR ''{'' \<notin> set (snd g)
           \<and> CHR '','' \<notin> set (snd g) \<and> CHR ''|'' \<notin> set (snd g)"
    by (simp add: comparisonTags_def)
  have 3: "2 \<le> length [(''gt'', ''5''), (''gt'', ''7'')]" by simp
  have 4: "\<forall>g \<in> set [(''gt'', ''5''), (''gt'', ''7'')].
      fst g \<in> set comparisonTags \<and> snd g \<noteq> [] \<and> CHR ''{'' \<notin> set (snd g)
           \<and> CHR '','' \<notin> set (snd g) \<and> CHR ''|'' \<notin> set (snd g)"
    by (simp add: comparisonTags_def)
  from groups_merge_into_one_object [OF 1 2, of "\<lambda>s. None" "[]" "[]"]
    groups_merge_into_one_object [OF 3 4, of "\<lambda>s. None" "[]" "[]"]
  show ?thesis
    by (simp add: opGroup_def comparisonTags_def classify_eval)
qed

text \<open>
  C6. The claim is that a token of two or more groups is cut into one piece for each group.
  The code puts a comma before every opening brace and cuts at the commas, so it cuts at a
  comma inside a value as well: \<^verbatim>\<open>{in}a,b{gt}5\<close> has two groups and is cut into three pieces,
  and the piece \<^verbatim>\<open>b\<close>, a plain string, is merged by its positions. An array of JSON, which is
  the value \<^verbatim>\<open>[1,2]\<close> of \<^verbatim>\<open>$in\<close> when its group stands alone, is cut in two when another group
  follows it.
\<close>

theorem comma_in_a_value_cuts_the_group:
  "queryAndValues ''{in}a,b{gt}5'' = [''{in}a'', ''b'', ''{gt}5'']
   \<and> getSimpleFilterValue toISOString ''{in}a,b{gt}5''
       = Inr (JObj [(''0'', JStr ''b''), (''$in'', JStr ''a''), (''$gt'', JNum 5)])
   \<and> getSimpleFilterValue toISOString ''{in}[1,2]''
       = Inr (JObj [(''$in'', JArr [JNum 1, JNum 2])])
   \<and> queryAndValues ''{in}[1,2]{gt}0'' = [''{in}[1'', ''2]'', ''{gt}0'']
   \<and> getSimpleFilterValue toISOString ''{in}[1,2]{gt}0''
       = Inr (JObj [(''0'', JStr ''2''), (''1'', JStr '']''), (''$in'', JStr ''[1''),
                    (''$gt'', JNum 0)])"
  by (simp add: classify_eval)

subsection \<open>Wildcard tokens\<close>































end
